theory Spec2Isabelle
  imports Complex_Main "HOL-Library.Multiset" "HOL-Library.AList" "HOL-Library.Log_Nat"
begin

section \<open>Python values and errors\<close>

text \<open>
  The exceptions the modelled code can raise. \<open>ParallelError\<close> is
  \<^verbatim>\<open>Parallel._ParallelError\<close> with its message; \<open>UserError\<close> is any
  other subclass of \<^verbatim>\<open>Exception\<close> raised by a task function.
  \<^verbatim>\<open>KeyboardInterrupt\<close> is not a subclass of \<^verbatim>\<open>Exception\<close> in Python, so the
  \<^verbatim>\<open>except Exception\<close> clauses of the source do not catch it.
\<close>

datatype py_error =
    ValueError string
  | TypeError string
  | IndexError string
  | ZeroDivisionError
  | AssertionError string
  | AttributeError string
  | KeyError string
  | OverflowError string
  | PicklingError string
  | ParallelError string
  | UserError string
  | UnpicklableError string
  | KeyboardInterrupt

section \<open>Python lists\<close>

text \<open>\<^verbatim>\<open>list.index(value)\<close>: the first position holding an equal element, or ValueError.\<close>

fun list_index :: "'a list \<Rightarrow> 'a \<Rightarrow> py_error + nat" where
  "list_index [] v = Inl (ValueError ''value is not in list'')"
| "list_index (x # xs) v =
     (if x = v then Inr 0
      else (case list_index xs v of Inl e \<Rightarrow> Inl e | Inr i \<Rightarrow> Inr (Suc i)))"

text \<open>
  \<^verbatim>\<open>xs[i]\<close>: an index below \<open>-len\<close> or from \<open>len\<close> on raises IndexError, a
  negative one in range counts from the end.
\<close>

definition list_get :: "'a list \<Rightarrow> int \<Rightarrow> py_error + 'a" where
  "list_get xs i =
     (if i < - int (length xs) \<or> int (length xs) \<le> i
      then Inl (IndexError ''list index out of range'')
      else if i < 0 then Inr (xs ! nat (int (length xs) + i))
      else Inr (xs ! nat i))"

section \<open>Python floats\<close>

text \<open>
  A Python float is an IEEE 754 binary64 number: a finite one is kept as the rational it
  stands for (the sign of zero is not kept: nothing modelled here reads it), the others are
  the two infinities and NaN. Arithmetic rounds the exact result to the nearest double, a
  tie going to the even significand.
\<close>

datatype pyfloat = Finite rat | PosInf | NegInf | NaN

text \<open>
  The nearest integer, a tie going to the even neighbour: \<^verbatim>\<open>round(x)\<close> with one argument
  on a float, and the rounding of a significand.
\<close>

definition round_half_even :: "rat \<Rightarrow> int" where
  "round_half_even x =
     (let f = \<lfloor>x\<rfloor>; d = x - of_int f in
      if d < 1 / 2 then f
      else if 1 / 2 < d then f + 1
      else if even f then f else f + 1)"

text \<open>The binary exponent of a positive rational: the \<open>e\<close> with \<open>2\<^sup>e \<le> x < 2\<^sup>e\<^sup>+\<^sup>1\<close>.\<close>

definition exponent_of :: "rat \<Rightarrow> int" where
  "exponent_of x =
     (let (p, q) = quotient_of x;
          e = bitlen p - bitlen q
      in if 2 powi e \<le> x then e else e - 1)"

text \<open>
  Rounding to binary64: 53 significant bits, the spacing never below \<open>2\<^sup>-\<^sup>1\<^sup>0\<^sup>7\<^sup>4\<close>
  (the subnormal range), and an infinity when the rounded magnitude reaches \<open>2\<^sup>1\<^sup>0\<^sup>2\<^sup>4\<close>.
\<close>

definition round_double :: "rat \<Rightarrow> pyfloat" where
  "round_double x =
     (if x = 0 then Finite 0
      else
        (let a = \<bar>x\<bar>;
             q = max (exponent_of a - 52) (- 1074);
             r = of_int (round_half_even (a / 2 powi q)) * 2 powi q
         in if 2 ^ 1024 \<le> r then (if 0 < x then PosInf else NegInf)
            else Finite (if 0 < x then r else - r)))"

definition float_neg :: "pyfloat \<Rightarrow> pyfloat" where
  "float_neg x = (case x of Finite a \<Rightarrow> Finite (- a) | PosInf \<Rightarrow> NegInf | NegInf \<Rightarrow> PosInf | NaN \<Rightarrow> NaN)"

definition float_add :: "pyfloat \<Rightarrow> pyfloat \<Rightarrow> pyfloat" where
  "float_add x y =
     (case (x, y) of
        (Finite a, Finite b) \<Rightarrow> round_double (a + b)
      | (NaN, _) \<Rightarrow> NaN
      | (_, NaN) \<Rightarrow> NaN
      | (PosInf, NegInf) \<Rightarrow> NaN
      | (NegInf, PosInf) \<Rightarrow> NaN
      | (PosInf, _) \<Rightarrow> PosInf
      | (NegInf, _) \<Rightarrow> NegInf
      | (_, PosInf) \<Rightarrow> PosInf
      | (_, NegInf) \<Rightarrow> NegInf)"

definition float_sub :: "pyfloat \<Rightarrow> pyfloat \<Rightarrow> pyfloat" where
  "float_sub x y = float_add x (float_neg y)"

text \<open>The sign of a float that is not NaN: \<open>-1\<close>, \<open>0\<close> or \<open>1\<close>.\<close>

definition float_sgn :: "pyfloat \<Rightarrow> rat" where
  "float_sgn x = (case x of Finite a \<Rightarrow> sgn a | PosInf \<Rightarrow> 1 | NegInf \<Rightarrow> - 1 | NaN \<Rightarrow> 0)"

definition float_mul :: "pyfloat \<Rightarrow> pyfloat \<Rightarrow> pyfloat" where
  "float_mul x y =
     (case (x, y) of
        (Finite a, Finite b) \<Rightarrow> round_double (a * b)
      | (NaN, _) \<Rightarrow> NaN
      | (_, NaN) \<Rightarrow> NaN
      | _ \<Rightarrow>
          (if float_sgn x * float_sgn y = 0 then NaN
           else if 0 < float_sgn x * float_sgn y then PosInf else NegInf))"

text \<open>\<^verbatim>\<open>x / y\<close> on floats: Python raises on a zero divisor.\<close>

definition float_truediv :: "pyfloat \<Rightarrow> pyfloat \<Rightarrow> py_error + pyfloat" where
  "float_truediv x y =
     (if y = Finite 0 then Inl ZeroDivisionError
      else
        (case (x, y) of
           (Finite a, Finite b) \<Rightarrow> Inr (round_double (a / b))
         | (NaN, _) \<Rightarrow> Inr NaN
         | (_, NaN) \<Rightarrow> Inr NaN
         | (Finite a, _) \<Rightarrow> Inr (Finite 0)
         | (_, Finite b) \<Rightarrow> Inr (if 0 < float_sgn x * sgn b then PosInf else NegInf)
         | _ \<Rightarrow> Inr NaN))"

text \<open>\<^verbatim>\<open>x < y\<close> on floats: false when either is NaN.\<close>

definition float_less :: "pyfloat \<Rightarrow> pyfloat \<Rightarrow> bool" where
  "float_less x y =
     (case (x, y) of
        (NaN, _) \<Rightarrow> False
      | (_, NaN) \<Rightarrow> False
      | (Finite a, Finite b) \<Rightarrow> a < b
      | (NegInf, NegInf) \<Rightarrow> False
      | (PosInf, PosInf) \<Rightarrow> False
      | (NegInf, _) \<Rightarrow> True
      | (_, PosInf) \<Rightarrow> True
      | _ \<Rightarrow> False)"

text \<open>\<^verbatim>\<open>max(a, b)\<close> and \<^verbatim>\<open>min(a, b)\<close>: the first argument unless the second is beyond it.\<close>

definition float_max :: "pyfloat \<Rightarrow> pyfloat \<Rightarrow> pyfloat" where
  "float_max a b = (if float_less a b then b else a)"

definition float_min :: "pyfloat \<Rightarrow> pyfloat \<Rightarrow> pyfloat" where
  "float_min a b = (if float_less b a then b else a)"

text \<open>
  \<^verbatim>\<open>a / b\<close> on ints: the exact quotient rounded once (CPython's \<^verbatim>\<open>long_true_divide\<close>),
  ZeroDivisionError on a zero divisor, OverflowError when the quotient is beyond the
  doubles.
\<close>

definition int_truediv :: "int \<Rightarrow> int \<Rightarrow> py_error + pyfloat" where
  "int_truediv a b =
     (if b = 0 then Inl ZeroDivisionError
      else (case round_double (of_int a / of_int b) of
              Finite r \<Rightarrow> Inr (Finite r)
            | _ \<Rightarrow> Inl (OverflowError ''integer division result too large for a float'')))"

text \<open>The conversion of an int operand of a float operation.\<close>

definition float_of_int :: "int \<Rightarrow> py_error + pyfloat" where
  "float_of_int i =
     (case round_double (of_int i) of
        Finite r \<Rightarrow> Inr (Finite r)
      | _ \<Rightarrow> Inl (OverflowError ''int too large to convert to float''))"

text \<open>\<^verbatim>\<open>round(x)\<close> with one argument on a float: an int, or an error on an infinity or NaN.\<close>

definition py_round :: "pyfloat \<Rightarrow> py_error + int" where
  "py_round x =
     (case x of
        Finite a \<Rightarrow> Inr (round_half_even a)
      | NaN \<Rightarrow> Inl (ValueError ''cannot convert float NaN to integer'')
      | _ \<Rightarrow> Inl (OverflowError ''cannot convert float infinity to integer''))"

section \<open>cftool/ml/param\_utils/normalizers/cube/core.py\<close>

text \<open>
  \<^verbatim>\<open>generic_number_type = Union[number_type, Any]\<close> (types.py): a value handed to a
  normalizer is a number, taken as the float it is or converts to, or any other object.
  Equality of the model stands for Python's \<^verbatim>\<open>==\<close>.
\<close>

datatype 'a generic_number = Number pyfloat | Other 'a

text \<open>
  The attributes of \<^verbatim>\<open>SingleNormalizer\<close> (bases.py, not among the sources) that
  \<^verbatim>\<open>CubeNormalizer\<close> reads: \<^verbatim>\<open>_choices\<close> (None or a list), \<^verbatim>\<open>_is_exponential\<close>,
  \<^verbatim>\<open>dist.base\<close>, \<^verbatim>\<open>_lower\<close> and \<^verbatim>\<open>_diff\<close>. \<^verbatim>\<open>math.log\<close> and \<^verbatim>\<open>math.pow\<close> are the C
  library's, which rounds as the platform does: they are parameters of the model, with
  the errors they raise.
\<close>

record 'a cube_normalizer =
  choices :: "'a generic_number list option"
  is_exponential :: bool
  base :: pyfloat
  lower :: pyfloat
  diff :: pyfloat
  math_log :: "pyfloat \<Rightarrow> pyfloat \<Rightarrow> py_error + pyfloat"
  math_pow :: "pyfloat \<Rightarrow> pyfloat \<Rightarrow> py_error + pyfloat"

definition cube_normalize :: "'a cube_normalizer \<Rightarrow> 'a generic_number \<Rightarrow> py_error + pyfloat" where
  "cube_normalize self v =
     (case choices self of
        Some cs \<Rightarrow>
          (case list_index cs v of
             Inl e \<Rightarrow> Inl e
           | Inr idx \<Rightarrow> int_truediv (int idx) (int (length cs) - 1))
      | None \<Rightarrow>
          (case v of
             Other _ \<Rightarrow> Inl (TypeError ''must be real number'')
           | Number x \<Rightarrow>
               (if is_exponential self then
                  (case math_log self x (base self) of
                     Inl e \<Rightarrow> Inl e
                   | Inr y \<Rightarrow> float_truediv (float_sub y (lower self)) (diff self))
                else float_truediv (float_sub x (lower self)) (diff self))))"

definition cube_recover :: "'a cube_normalizer \<Rightarrow> pyfloat \<Rightarrow> py_error + 'a generic_number" where
  "cube_recover self v =
     (case choices self of
        Some cs \<Rightarrow>
          (case float_of_int (int (length cs) - 1) of
             Inl e \<Rightarrow> Inl e
           | Inr n \<Rightarrow>
               (case py_round (float_mul v n) of
                  Inl e \<Rightarrow> Inl e
                | Inr idx \<Rightarrow>
                    (let idx = max 0 (min (int (length cs) - 1) idx)
                     in list_get cs idx)))
      | None \<Rightarrow>
          (let v1 = float_max (Finite 0) (float_min (Finite 1) v);
               v2 = float_add (float_mul v1 (diff self)) (lower self)
           in if is_exponential self then
                (case math_pow self (base self) v2 of Inl e \<Rightarrow> Inl e | Inr y \<Rightarrow> Inr (Number y))
              else Inr (Number v2)))"

section \<open>cftool/ml/hpo/base.py: the parameters \<open>HPOBase.search\<close> selects\<close>

text \<open>
  \<^verbatim>\<open>num_search: Union[str, int, float]\<close>; the model keeps the string and the integer
  form. \<open>n_params\<close> is \<^verbatim>\<open>self.param_generator.n_params\<close>: \<open>None\<close> stands for
  \<^verbatim>\<open>math.inf\<close>.
\<close>

datatype num_search_arg = SearchStr string | SearchInt int

definition resolve_num_search :: "nat option \<Rightarrow> num_search_arg \<Rightarrow> py_error + int" where
  "resolve_num_search n_params num_search =
     (case num_search of
        SearchStr s \<Rightarrow>
          (if s \<noteq> ''all'' then Inl (ValueError ''num_search can only be all when it is a string'')
           else (case n_params of
                   None \<Rightarrow> Inl (ValueError ''num_search is all but we have infinite params to search'')
                 | Some n \<Rightarrow> Inr (int n)))
      | SearchInt k \<Rightarrow>
          (case n_params of
             None \<Rightarrow> Inr k
           | Some n \<Rightarrow> if int n < k then Inr (int n) else Inr k))"

text \<open>
  \<^verbatim>\<open>random.sample(population, k)\<close> of the Python standard library, in its pool form
  (the form it takes whenever \<open>k\<close> is the size of the population, as in \<open>search\<close>):
  \<^verbatim>\<open>
  pool = list(population)
  for i in range(k):
      j = randbelow(n - i)
      result[i] = pool[j]
      pool[j] = pool[n - i - 1]
  \<close>
  The random generator is the function \<open>randbelow\<close>: its \<open>i\<close>-th draw, reduced to the
  range asked for. Every seed is some such function. \<open>result\<close> is filled from the left,
  which the model writes as appending.
\<close>

function sample_loop :: "(nat \<Rightarrow> nat) \<Rightarrow> nat \<Rightarrow> nat \<Rightarrow> nat \<Rightarrow> 'a list \<Rightarrow> 'a list \<Rightarrow> 'a list" where
  "sample_loop randbelow n k i pool result =
     (if i < k then
        (let j = randbelow i mod (n - i) in
         sample_loop randbelow n k (Suc i) (pool[j := pool ! (n - i - 1)]) (result @ [pool ! j]))
      else result)"
  by pat_completeness auto
termination
  by (relation "measure (\<lambda>(randbelow, n, k, i, pool, result). k - i)") auto

declare sample_loop.simps [simp del]

definition random_sample :: "(nat \<Rightarrow> nat) \<Rightarrow> 'a list \<Rightarrow> int \<Rightarrow> py_error + 'a list" where
  "random_sample randbelow population k =
     (if k < 0 \<or> int (length population) < k
      then Inl (ValueError ''Sample larger than population or is negative'')
      else Inr (sample_loop randbelow (length population) (nat k) 0 population []))"

text \<open>
  Lines 114 to 120 of base.py: the loop over \<^verbatim>\<open>enumerate(self.param_generator.all())\<close>,
  \<open>i\<close> the running index, with its \<^verbatim>\<open>break\<close>. The generator is the list of the
  parameters it enumerates.
\<close>

fun select_loop :: "int set \<Rightarrow> int \<Rightarrow> int \<Rightarrow> 'p list \<Rightarrow> 'p list \<Rightarrow> 'p list" where
  "select_loop all_indices num_search i [] all_params = all_params"
| "select_loop all_indices num_search i (param # rest) all_params =
     (let all_params' = (if i \<in> all_indices then all_params @ [param] else all_params) in
      if int (length all_params') = num_search then all_params'
      else select_loop all_indices num_search (i + 1) rest all_params')"

text \<open>\<^verbatim>\<open>all_indices = set(random.sample(list(range(num_search)), k=num_search))\<close>\<close>

definition draw_all_indices :: "(nat \<Rightarrow> nat) \<Rightarrow> int \<Rightarrow> py_error + int set" where
  "draw_all_indices randbelow num_search =
     (case random_sample randbelow [0..num_search - 1] num_search of
        Inl e \<Rightarrow> Inl e
      | Inr drawn \<Rightarrow> Inr (set drawn))"

text \<open>
  \<open>all_params\<close> of the branch for a finite parameter space (the \<^verbatim>\<open>else\<close> of line 113),
  after \<open>num_search\<close> has been resolved against \<open>n_params\<close>, the number of parameters
  the generator enumerates.
\<close>

definition search_all_params ::
  "(nat \<Rightarrow> nat) \<Rightarrow> 'p list \<Rightarrow> num_search_arg \<Rightarrow> py_error + 'p list" where
  "search_all_params randbelow params num_search =
     (case resolve_num_search (Some (length params)) num_search of
        Inl e \<Rightarrow> Inl e
      | Inr k \<Rightarrow>
          (case draw_all_indices randbelow k of
             Inl e \<Rightarrow> Inl e
           | Inr all_indices \<Rightarrow> Inr (select_loop all_indices k 0 params [])))"

section \<open>cftool/dist/core.py: values and the shared result store\<close>

text \<open>
  The values tasks take and return and the shared dict holds: \<^verbatim>\<open>None\<close>, booleans, ints,
  strings, dicts with string keys (association lists in insertion order, written with
  \<open>AList.update\<close> and read with \<open>map_of\<close>), exception objects, and \<open>PObject\<close> for any
  other object, one that pickle cannot serialise (a lock, a lambda, an open file).
  \<open>truthy\<close> is Python's truth test on them. A task's return value asks for termination
  when it is a dict whose \<^verbatim>\<open>terminate\<close> entry is truthy (line 359:
  \<^verbatim>\<open>isinstance(rs, dict) and rs.get("terminate", False)\<close>).
\<close>

datatype pyval =
    PNone
  | PBool bool
  | PInt int
  | PStr string
  | PDict "(string \<times> pyval) list"
  | PError py_error
  | PObject string

fun truthy :: "pyval \<Rightarrow> bool" where
  "truthy PNone = False"
| "truthy (PBool b) = b"
| "truthy (PInt i) = (i \<noteq> 0)"
| "truthy (PStr s) = (s \<noteq> [])"
| "truthy (PDict kvs) = (kvs \<noteq> [])"
| "truthy (PError e) = True"
| "truthy (PObject d) = True"

definition wants_terminate :: "pyval \<Rightarrow> bool" where
  "wants_terminate r =
     (case r of
        PDict kvs \<Rightarrow> (case map_of kvs ''terminate'' of None \<Rightarrow> False | Some v \<Rightarrow> truthy v)
      | _ \<Rightarrow> False)"

text \<open>
  What can be sent to the manager process behind \<^verbatim>\<open>self._rs\<close>: every write through the
  proxy pickles the value. The exceptions of the model can be pickled but
  \<open>UnpicklableError\<close>, which stands for an exception of the task function that cannot
  (its class cannot be rebuilt from \<^verbatim>\<open>args\<close>, or it holds an object that cannot be
  pickled); a dict can when its values can.
\<close>

definition error_picklable :: "py_error \<Rightarrow> bool" where
  "error_picklable e = (case e of UnpicklableError _ \<Rightarrow> False | _ \<Rightarrow> True)"

fun picklable :: "pyval \<Rightarrow> bool" where
  "picklable (PDict kvs) = list_all (\<lambda>kv. picklable (snd kv)) kvs"
| "picklable (PError e) = error_picklable e"
| "picklable (PObject d) = False"
| "picklable v = True"

text \<open>\<^verbatim>\<open>obj[key]\<close> and \<^verbatim>\<open>obj[key] = v\<close> with a string key, on a local object.\<close>

definition getitem :: "pyval \<Rightarrow> string \<Rightarrow> py_error + pyval" where
  "getitem obj key =
     (case obj of
        PDict kvs \<Rightarrow> (case map_of kvs key of None \<Rightarrow> Inl (KeyError key) | Some v \<Rightarrow> Inr v)
      | PStr s \<Rightarrow> Inl (TypeError ''string indices must be integers'')
      | _ \<Rightarrow> Inl (TypeError ''object is not subscriptable''))"

definition setitem :: "pyval \<Rightarrow> string \<Rightarrow> pyval \<Rightarrow> py_error + pyval" where
  "setitem obj key v =
     (case obj of
        PDict kvs \<Rightarrow> Inr (PDict (AList.update key v kvs))
      | _ \<Rightarrow> Inl (TypeError ''object does not support item assignment''))"

text \<open>
  What \<^verbatim>\<open>inspect.signature\<close> tells of a task function: the names and kinds of its
  parameters, in order. A function is its body, which maps the positional arguments and
  the keyword arguments it is called with to what the call does, and its parameter list.
\<close>

datatype param_kind =
  POSITIONAL_ONLY | POSITIONAL_OR_KEYWORD | VAR_POSITIONAL | KEYWORD_ONLY | VAR_KEYWORD

datatype kwarg = CudaArg "int option" | LogMethodArg

datatype outcome = Returns pyval | Raises py_error

datatype log_level = DEBUG | INFO | WARNING | ERROR

text \<open>
  A \<^verbatim>\<open>multiprocessing.Process\<close>: the task it was created for, what its target
  \<^verbatim>\<open>_inner\<close> closes over (task name and device) and its arguments, the time it was
  started at, the time its body began at and whether it has exited. Processes are known
  by their position in the list \<open>procs\<close>.
\<close>

record process =
  p_task :: nat
  p_name :: string
  p_cuda :: "int option"
  p_args :: "pyval list"
  p_started :: "nat option"
  p_began :: "nat option"
  p_exited :: bool

text \<open>
  \<^verbatim>\<open>ResourceManager\<close> (cftool/manage) is not among the sources. Its method
  \<^verbatim>\<open>get_process(task_id, sleep, start)\<close> is a parameter of the model: for the \<open>k\<close>-th
  request and the task asked for, it answers how often it called the \<^verbatim>\<open>sleep\<close>
  callback before deciding (and whether \<^verbatim>\<open>checkpoint_initialized\<close> held at each call,
  which \<^verbatim>\<open>_refresh\<close> reads), the value of \<^verbatim>\<open>__create_process__\<close>, and the device
  \<^verbatim>\<open>rs["GPU"]["tgt_resource_id"]\<close> when the answer has a \<^verbatim>\<open>GPU\<close> entry.
\<close>

record rm_answer =
  deferrals :: "bool list"
  create_process :: bool
  gpu :: "int option"

record py_function =
  body :: "pyval list \<Rightarrow> (string \<times> kwarg) list \<Rightarrow> outcome"
  parameters :: "(string \<times> param_kind) list"

text \<open>
  The arguments of \<^verbatim>\<open>Parallel.__init__\<close> the model keeps, and the platform flag
  \<^verbatim>\<open>WINDOWS\<close>. \<open>num_jobs\<close> is a number of jobs, a natural number. The property
  \<^verbatim>\<open>name_suffix\<close> belongs to \<^verbatim>\<open>PureLoggingMixin\<close>, which is not among the sources: it
  is empty when no \<^verbatim>\<open>name\<close> was given (cftool/ml/hpo/base.py constructs
  \<^verbatim>\<open>Parallel(num_jobs, task_names=range_list)\<close> and reads the results back under
  \<^verbatim>\<open>str(i)\<close>), and \<open>suffix_format\<close> stands for what the mixin makes of a name that was
  given. \<open>available_cuda_list\<close> is the entry of that name in
  \<^verbatim>\<open>resource_config["gpu_config"]\<close>: absent, \<^verbatim>\<open>None\<close> or a list.
\<close>

record config =
  windows :: bool
  num_jobs :: nat
  use_cuda :: bool
  task_names :: "string list option"
  name :: "string option"
  suffix_format :: "string \<Rightarrow> string"
  available_cuda_list :: "int list option option"

text \<open>
  What the run does not decide: for each task, how many polls of the parent pass between
  the start of its process and the moment the child reads the termination flag
  (\<open>task_startup\<close>) and between that moment and the end of the task
  (\<open>task_duration\<close>); the resource manager's answers; whether constructing
  \<^verbatim>\<open>GPUManager\<close> fails; and at which of the parent's interruption points, counted from
  the start of the batch, the user's interrupt arrives, if it does.
\<close>

record environment =
  task_startup :: "nat \<Rightarrow> nat"
  task_duration :: "nat \<Rightarrow> nat"
  resource_manager :: "nat \<Rightarrow> nat \<Rightarrow> rm_answer"
  gpu_manager_error :: "py_error option"
  sigint_at :: "nat option"

text \<open>
  The \<^verbatim>\<open>Parallel\<close> object together with the processes it has created and the clock.
  \<open>rs\<close> is the shared dict \<^verbatim>\<open>self._rs\<close> (lines 95 to 98): one dict, in which the two
  reserved keys \<^verbatim>\<open>__meta__\<close> and \<^verbatim>\<open>__exceptions__\<close> stand beside the entries written
  under task names. \<open>registered\<close> is the list of resource kinds registered with the
  resource manager, \<open>manager_running\<close> tells whether the \<^verbatim>\<open>SyncManager\<close> runs,
  \<open>worker_log\<close> collects what the workers log, \<open>calls\<close> the calls of the task function
  (task name, positional and keyword arguments), \<open>requests\<close> and \<open>ip\<close> count the
  requests to the resource manager and the interruption points passed. \<open>live_peak\<close> is
  a history variable: the largest number of live children seen at any start of a process,
  which is when that number grows.
\<close>

record parallel =
  cfg :: config
  env :: environment
  func :: py_function
  args_list :: "pyval list list"
  cursor :: nat
  all_task_ids :: "nat list"
  working_task_ids :: "nat option list"
  working_processes :: "nat option list option"
  rs :: "(string \<times> pyval) list"
  registered :: "string list"
  manager_running :: bool
  procs :: "process list"
  now :: nat
  worker_log :: "(string \<times> log_level \<times> string) list"
  calls :: "(string \<times> pyval list \<times> (string \<times> kwarg) list) list"
  requests :: nat
  ip :: nat
  live_peak :: nat

text \<open>
  How a method ends: it returns a value, it raises, or it never returns. Each case carries
  the state reached, which \<open>state_of\<close> reads. A batch ends with the plain dict of the
  pool (on Windows), with the \<^verbatim>\<open>Parallel\<close> object, with an exception that leaves
  \<^verbatim>\<open>__call__\<close>, or not at all.
\<close>

datatype 'a res = Ok 'a parallel | Raised py_error parallel | Hang parallel

fun state_of :: "'a res \<Rightarrow> parallel" where
  "state_of (Ok _ s) = s"
| "state_of (Raised _ s) = s"
| "state_of (Hang s) = s"

datatype batch = PoolBatch "(string \<times> pyval) list" | Done parallel | Uncaught py_error parallel | Hung parallel

subsection \<open>Task names\<close>

text \<open>
  \<^verbatim>\<open>_get_task_name\<close> (lines 308 to 316) for a task id that is not \<^verbatim>\<open>None\<close>;
  \<open>str_nat\<close> is the decimal numeral an f-string prints.
\<close>

definition digit_char :: "nat \<Rightarrow> char" where
  "digit_char d = ''0123456789'' ! d"

fun str_nat :: "nat \<Rightarrow> string" where
  "str_nat n = (if n < 10 then [digit_char n] else str_nat (n div 10) @ [digit_char (n mod 10)])"

declare str_nat.simps [simp del]

definition name_suffix :: "parallel \<Rightarrow> string" where
  "name_suffix self =
     (case name (cfg self) of None \<Rightarrow> [] | Some given \<Rightarrow> suffix_format (cfg self) given)"

definition get_task_name :: "parallel \<Rightarrow> nat \<Rightarrow> py_error + string" where
  "get_task_name self task_id =
     (case task_names (cfg self) of
        None \<Rightarrow> Inr (''task_'' @ str_nat task_id @ name_suffix self)
      | Some names \<Rightarrow>
          (case list_get names (int task_id) of
             Inl e \<Rightarrow> Inl e
           | Inr task_name \<Rightarrow> Inr (task_name @ name_suffix self)))"

subsection \<open>The shared dict\<close>

text \<open>
  \<^verbatim>\<open>self._rs[key]\<close> and \<^verbatim>\<open>self._rs[key] = v\<close> on the proxy of the shared dict: a read
  gives a copy of the value or \<^verbatim>\<open>KeyError\<close>, a write sends the value to the manager
  and raises when it cannot be pickled (as \<^verbatim>\<open>PicklingError\<close>, \<^verbatim>\<open>TypeError\<close> or the
  manager's \<^verbatim>\<open>RemoteError\<close>, by where it fails: one error stands for them).
  \<open>meta\<close>, \<open>exceptions\<close> and \<open>terminated\<close> are the properties of lines 190 to 200.
\<close>

definition proxy_getitem :: "string \<Rightarrow> parallel \<Rightarrow> py_error + pyval" where
  "proxy_getitem key self =
     (case map_of (rs self) key of None \<Rightarrow> Inl (KeyError key) | Some v \<Rightarrow> Inr v)"

definition proxy_setitem :: "string \<Rightarrow> pyval \<Rightarrow> parallel \<Rightarrow> py_error + parallel" where
  "proxy_setitem key v self =
     (if picklable v then Inr (self\<lparr>rs := AList.update key v (rs self)\<rparr>)
      else Inl (PicklingError ''cannot send the value to the manager''))"

definition meta :: "parallel \<Rightarrow> py_error + pyval" where
  "meta self = proxy_getitem ''__meta__'' self"

definition exceptions :: "parallel \<Rightarrow> py_error + pyval" where
  "exceptions self = proxy_getitem ''__exceptions__'' self"

definition terminated :: "parallel \<Rightarrow> py_error + pyval" where
  "terminated self =
     (case meta self of Inl e \<Rightarrow> Inl e | Inr m \<Rightarrow> getitem m ''terminated'')"

subsection \<open>The worker adapter\<close>

text \<open>
  \<^verbatim>\<open>_f_wrapper\<close> (lines 318 to 379). \<open>log_method\<close> appends to the log of the task;
  \<open>set_terminate\<close> is \<^verbatim>\<open>_set_terminate\<close> (lines 298 to 306): read \<^verbatim>\<open>__meta__\<close>, set
  \<^verbatim>\<open>terminated\<close> in the copy, write it back.
\<close>

definition log_method :: "string \<Rightarrow> string \<Rightarrow> log_level \<Rightarrow> parallel \<Rightarrow> parallel" where
  "log_method task_name msg msg_level self =
     self\<lparr>worker_log := worker_log self @ [(task_name, msg_level, msg)]\<rparr>"

definition set_terminate :: "parallel \<Rightarrow> unit res" where
  "set_terminate self =
     (case meta self of
        Inl e \<Rightarrow> Raised e self
      | Inr m \<Rightarrow>
          (case setitem m ''terminated'' (PBool True) of
             Inl e \<Rightarrow> Raised e self
           | Inr m \<Rightarrow>
               (case proxy_setitem ''__meta__'' m self of
                  Inl e \<Rightarrow> Raised e self
                | Inr self \<Rightarrow> Ok () self)))"

text \<open>
  The loop over \<^verbatim>\<open>f_signature.parameters.items()\<close> (lines 336 to 346), with its
  \<^verbatim>\<open>break\<close> at a \<^verbatim>\<open>VAR_KEYWORD\<close> parameter; the pair is
  \<open>(f_wants_cuda, f_wants_log_method)\<close>.
\<close>

fun scan_signature :: "(string \<times> param_kind) list \<Rightarrow> bool \<times> bool \<Rightarrow> bool \<times> bool" where
  "scan_signature [] wants = wants"
| "scan_signature ((param_name, kind) # rest) (f_wants_cuda, f_wants_log_method) =
     (if kind = VAR_KEYWORD then (True, True)
      else if kind = POSITIONAL_OR_KEYWORD then
        (if param_name = ''cuda'' then scan_signature rest (True, f_wants_log_method)
         else if param_name = ''log_method'' then scan_signature rest (f_wants_cuda, True)
         else scan_signature rest (f_wants_cuda, f_wants_log_method))
      else scan_signature rest (f_wants_cuda, f_wants_log_method))"

text \<open>Lines 333 to 357: the keyword arguments handed to the task function, and what is logged.\<close>

definition capabilities ::
  "string \<Rightarrow> int option \<Rightarrow> parallel \<Rightarrow> (string \<times> kwarg) list \<times> parallel" where
  "capabilities task_name cuda self =
     (let (f_wants_cuda, f_wants_log_method) =
            scan_signature (parameters (func self)) (False, False);
          kwargs = [];
          (kwargs, self) =
            (if \<not> f_wants_cuda then
               (if use_cuda (cfg self)
                then (kwargs, log_method task_name
                        ''task function doesn't want cuda but cuda is used'' WARNING self)
                else (kwargs, self))
             else (kwargs @ [(''cuda'', CudaArg cuda)],
                   log_method task_name ''task function wants cuda'' INFO self));
          (kwargs, self) =
            (if \<not> f_wants_log_method then
               (kwargs, log_method task_name ''task function doesn't want log_method'' WARNING self)
             else (kwargs @ [(''log_method'', LogMethodArg)],
                   log_method task_name ''task function wants log_method'' INFO self))
      in (kwargs, self))"

text \<open>
  \<^verbatim>\<open>_inner\<close> (lines 328 to 377). \<open>func_call\<close> is the call of line 358, which the state
  records. \<open>try_block\<close> is the body of the \<^verbatim>\<open>try\<close> statement (lines 331 to 361): it
  ends with the value of \<^verbatim>\<open>terminate\<close>, or with the exception raised by the call or by
  the write of its result. \<open>except_Exception\<close> is the handler of lines 365 to 376,
  \<open>terminate_task\<close> the last two lines. An exception raised by the handler or by
  \<^verbatim>\<open>_set_terminate\<close> leaves \<^verbatim>\<open>_inner\<close>: the process dies of it. \<open>inner_body\<close> puts
  them together; \<open>inner\<close> is the whole function with the test of the termination flag
  at its top (line 329).
\<close>

definition func_call ::
  "string \<Rightarrow> pyval list \<Rightarrow> (string \<times> kwarg) list \<Rightarrow> parallel \<Rightarrow> outcome \<times> parallel" where
  "func_call task_name args kwargs self =
     (body (func self) args kwargs, self\<lparr>calls := calls self @ [(task_name, args, kwargs)]\<rparr>)"

definition try_block ::
  "string \<Rightarrow> int option \<Rightarrow> pyval list \<Rightarrow> parallel \<Rightarrow> (py_error + bool) \<times> parallel" where
  "try_block task_name cuda args self =
     (let self = log_method task_name ''task started'' INFO self;
          (kwargs, self) = capabilities task_name cuda self;
          (returned, self) = func_call task_name args kwargs self
      in case returned of
           Raises err \<Rightarrow> (Inl err, self)
         | Returns r \<Rightarrow>
             (case proxy_setitem task_name r self of
                Inl err \<Rightarrow> (Inl err, self)
              | Inr self \<Rightarrow>
                  (let terminate = wants_terminate r
                   in if \<not> terminate
                      then (Inr terminate, log_method task_name ''task finished'' INFO self)
                      else (Inr terminate, self))))"

definition except_Exception :: "string \<Rightarrow> py_error \<Rightarrow> parallel \<Rightarrow> unit res" where
  "except_Exception task_name err self =
     (case exceptions self of
        Inl e \<Rightarrow> Raised e self
      | Inr excs \<Rightarrow>
          (case proxy_setitem task_name (PError err) self of
             Inl e \<Rightarrow> Raised e self
           | Inr self \<Rightarrow>
               (case setitem excs task_name (PError err) of
                  Inl e \<Rightarrow> Raised e self
                | Inr excs \<Rightarrow>
                    (case proxy_setitem ''__exceptions__'' excs self of
                       Inl e \<Rightarrow> Raised e self
                     | Inr self \<Rightarrow> Ok () self))))"

definition terminate_task :: "string \<Rightarrow> parallel \<Rightarrow> unit res" where
  "terminate_task task_name self =
     (case set_terminate self of
        Ok _ self \<Rightarrow> Ok () (log_method task_name ''task terminated'' ERROR self)
      | Raised e self \<Rightarrow> Raised e self
      | Hang self \<Rightarrow> Hang self)"

definition inner_body :: "string \<Rightarrow> int option \<Rightarrow> pyval list \<Rightarrow> parallel \<Rightarrow> unit res" where
  "inner_body task_name cuda args self =
     (case try_block task_name cuda args self of
        (Inr terminate, self) \<Rightarrow>
          if terminate then terminate_task task_name self else Ok () self
      | (Inl KeyboardInterrupt, self) \<Rightarrow>
          Ok () (log_method task_name ''key board interrupted'' ERROR self)
      | (Inl err, self) \<Rightarrow>
          (case except_Exception task_name err self of
             Ok _ self \<Rightarrow> terminate_task task_name self
           | Raised e self \<Rightarrow> Raised e self
           | Hang self \<Rightarrow> Hang self))"

definition inner :: "string \<Rightarrow> int option \<Rightarrow> pyval list \<Rightarrow> parallel \<Rightarrow> unit res" where
  "inner task_name cuda args self =
     (case terminated self of
        Inl e \<Rightarrow> Raised e self
      | Inr flag \<Rightarrow> if truthy flag then Ok () self else inner_body task_name cuda args self)"

subsection \<open>Child processes\<close>

text \<open>
  A child process runs \<^verbatim>\<open>_inner\<close> in two atomic steps on the shared store: it reads the
  termination flag (and exits if it is set, or if reading it raises), and later it runs
  \<open>inner_body\<close> and exits, whether \<open>inner_body\<close> returned or raised: the parent never
  reads the exit code. \<open>tick\<close> lets one poll interval pass: every started child whose
  step has come due takes it, in the order of creation, and the clock advances. The
  parent's \<^verbatim>\<open>time.sleep\<close> is a tick.
\<close>

definition child_begin :: "nat \<Rightarrow> parallel \<Rightarrow> parallel" where
  "child_begin pid self =
     (case terminated self of
        Inl e \<Rightarrow> self\<lparr>procs := (procs self)[pid := (procs self ! pid)\<lparr>p_exited := True\<rparr>]\<rparr>
      | Inr flag \<Rightarrow>
          if truthy flag
          then self\<lparr>procs := (procs self)[pid := (procs self ! pid)\<lparr>p_exited := True\<rparr>]\<rparr>
          else self\<lparr>procs := (procs self)[pid := (procs self ! pid)\<lparr>p_began := Some (now self)\<rparr>]\<rparr>)"

definition child_finish :: "nat \<Rightarrow> parallel \<Rightarrow> parallel" where
  "child_finish pid self =
     (let p = procs self ! pid;
          self = state_of (inner_body (p_name p) (p_cuda p) (p_args p) self)
      in self\<lparr>procs := (procs self)[pid := (procs self ! pid)\<lparr>p_exited := True\<rparr>]\<rparr>)"

definition step_child :: "nat \<Rightarrow> parallel \<Rightarrow> parallel" where
  "step_child pid self =
     (let p = procs self ! pid in
      case p_started p of
        None \<Rightarrow> self
      | Some t0 \<Rightarrow>
          if p_exited p then self
          else (case p_began p of
                  None \<Rightarrow>
                    if t0 + task_startup (env self) (p_task p) \<le> now self
                    then child_begin pid self else self
                | Some t1 \<Rightarrow>
                    if t1 + task_duration (env self) (p_task p) \<le> now self
                    then child_finish pid self else self))"

fun step_children :: "nat list \<Rightarrow> parallel \<Rightarrow> parallel" where
  "step_children [] self = self"
| "step_children (pid # pids) self = step_children pids (step_child pid self)"

definition tick :: "parallel \<Rightarrow> parallel" where
  "tick self =
     (let self = step_children [0..<length (procs self)] self in self\<lparr>now := now self + 1\<rparr>)"

text \<open>\<^verbatim>\<open>Process.is_alive()\<close>, the number of live children, and \<^verbatim>\<open>Process.start()\<close>.\<close>

definition is_alive :: "parallel \<Rightarrow> nat \<Rightarrow> bool" where
  "is_alive self pid =
     (pid < length (procs self) \<and> p_started (procs self ! pid) \<noteq> None
      \<and> \<not> p_exited (procs self ! pid))"

definition live_count :: "parallel \<Rightarrow> nat" where
  "live_count self = length (filter (is_alive self) [0..<length (procs self)])"

definition process_start :: "nat \<Rightarrow> parallel \<Rightarrow> parallel" where
  "process_start pid self =
     (let self = self\<lparr>procs := (procs self)[pid := (procs self ! pid)\<lparr>p_started := Some (now self)\<rparr>]\<rparr>
      in self\<lparr>live_peak := max (live_peak self) (live_count self)\<rparr>)"

text \<open>A bound on the ticks a live process still takes to exit; it measures the loops that wait.\<close>

definition remaining :: "parallel \<Rightarrow> nat \<Rightarrow> nat" where
  "remaining self pid =
     (if is_alive self pid then
        (let p = procs self ! pid in
         case p_began p of
           None \<Rightarrow> the (p_started p) + task_startup (env self) (p_task p) - now self
                     + task_duration (env self) (p_task p) + 3
         | Some t1 \<Rightarrow> Suc (t1 + task_duration (env self) (p_task p) - now self))
      else 0)"

lemma log_method_frame [simp]:
  "cfg (log_method n m l s) = cfg s"
  "env (log_method n m l s) = env s"
  "func (log_method n m l s) = func s"
  "args_list (log_method n m l s) = args_list s"
  "cursor (log_method n m l s) = cursor s"
  "all_task_ids (log_method n m l s) = all_task_ids s"
  "working_task_ids (log_method n m l s) = working_task_ids s"
  "working_processes (log_method n m l s) = working_processes s"
  "rs (log_method n m l s) = rs s"
  "registered (log_method n m l s) = registered s"
  "manager_running (log_method n m l s) = manager_running s"
  "procs (log_method n m l s) = procs s"
  "now (log_method n m l s) = now s"
  "calls (log_method n m l s) = calls s"
  "requests (log_method n m l s) = requests s"
  "ip (log_method n m l s) = ip s"
  "live_peak (log_method n m l s) = live_peak s"
  by (simp_all add: log_method_def)

lemma proxy_setitem_frame [simp]:
  "cfg (state_of (case proxy_setitem k v s of Inl e \<Rightarrow> Raised e s | Inr s1 \<Rightarrow> Ok () s1)) = cfg s"
  "env (state_of (case proxy_setitem k v s of Inl e \<Rightarrow> Raised e s | Inr s1 \<Rightarrow> Ok () s1)) = env s"
  "func (state_of (case proxy_setitem k v s of Inl e \<Rightarrow> Raised e s | Inr s1 \<Rightarrow> Ok () s1)) = func s"
  "args_list (state_of (case proxy_setitem k v s of Inl e \<Rightarrow> Raised e s | Inr s1 \<Rightarrow> Ok () s1)) = args_list s"
  "cursor (state_of (case proxy_setitem k v s of Inl e \<Rightarrow> Raised e s | Inr s1 \<Rightarrow> Ok () s1)) = cursor s"
  "all_task_ids (state_of (case proxy_setitem k v s of Inl e \<Rightarrow> Raised e s | Inr s1 \<Rightarrow> Ok () s1)) = all_task_ids s"
  "working_task_ids (state_of (case proxy_setitem k v s of Inl e \<Rightarrow> Raised e s | Inr s1 \<Rightarrow> Ok () s1)) = working_task_ids s"
  "working_processes (state_of (case proxy_setitem k v s of Inl e \<Rightarrow> Raised e s | Inr s1 \<Rightarrow> Ok () s1)) = working_processes s"
  "registered (state_of (case proxy_setitem k v s of Inl e \<Rightarrow> Raised e s | Inr s1 \<Rightarrow> Ok () s1)) = registered s"
  "manager_running (state_of (case proxy_setitem k v s of Inl e \<Rightarrow> Raised e s | Inr s1 \<Rightarrow> Ok () s1)) = manager_running s"
  "procs (state_of (case proxy_setitem k v s of Inl e \<Rightarrow> Raised e s | Inr s1 \<Rightarrow> Ok () s1)) = procs s"
  "now (state_of (case proxy_setitem k v s of Inl e \<Rightarrow> Raised e s | Inr s1 \<Rightarrow> Ok () s1)) = now s"
  "worker_log (state_of (case proxy_setitem k v s of Inl e \<Rightarrow> Raised e s | Inr s1 \<Rightarrow> Ok () s1)) = worker_log s"
  "calls (state_of (case proxy_setitem k v s of Inl e \<Rightarrow> Raised e s | Inr s1 \<Rightarrow> Ok () s1)) = calls s"
  "requests (state_of (case proxy_setitem k v s of Inl e \<Rightarrow> Raised e s | Inr s1 \<Rightarrow> Ok () s1)) = requests s"
  "ip (state_of (case proxy_setitem k v s of Inl e \<Rightarrow> Raised e s | Inr s1 \<Rightarrow> Ok () s1)) = ip s"
  "live_peak (state_of (case proxy_setitem k v s of Inl e \<Rightarrow> Raised e s | Inr s1 \<Rightarrow> Ok () s1)) = live_peak s"
  by (simp_all add: proxy_setitem_def)

lemma proxy_setitem_Inr:
  "proxy_setitem k v s = Inr s1 \<longleftrightarrow> picklable v \<and> s1 = s\<lparr>rs := AList.update k v (rs s)\<rparr>"
  by (auto simp add: proxy_setitem_def)

lemma proxy_setitem_Inl:
  "proxy_setitem k v s = Inl e \<longleftrightarrow> \<not> picklable v \<and> e = PicklingError ''cannot send the value to the manager''"
  by (auto simp add: proxy_setitem_def)

lemma set_terminate_frame [simp]:
  "cfg (state_of (set_terminate s)) = cfg s"
  "env (state_of (set_terminate s)) = env s"
  "func (state_of (set_terminate s)) = func s"
  "args_list (state_of (set_terminate s)) = args_list s"
  "cursor (state_of (set_terminate s)) = cursor s"
  "all_task_ids (state_of (set_terminate s)) = all_task_ids s"
  "working_task_ids (state_of (set_terminate s)) = working_task_ids s"
  "working_processes (state_of (set_terminate s)) = working_processes s"
  "registered (state_of (set_terminate s)) = registered s"
  "manager_running (state_of (set_terminate s)) = manager_running s"
  "procs (state_of (set_terminate s)) = procs s"
  "now (state_of (set_terminate s)) = now s"
  "worker_log (state_of (set_terminate s)) = worker_log s"
  "calls (state_of (set_terminate s)) = calls s"
  "requests (state_of (set_terminate s)) = requests s"
  "ip (state_of (set_terminate s)) = ip s"
  "live_peak (state_of (set_terminate s)) = live_peak s"
  by (simp_all add: set_terminate_def proxy_setitem_def split: sum.splits)

lemma set_terminate_not_Hang [simp]: "set_terminate s \<noteq> Hang s1"
  by (simp add: set_terminate_def split: sum.splits)

lemma capabilities_frame [simp]:
  "cfg (snd (capabilities n c s)) = cfg s"
  "env (snd (capabilities n c s)) = env s"
  "func (snd (capabilities n c s)) = func s"
  "args_list (snd (capabilities n c s)) = args_list s"
  "cursor (snd (capabilities n c s)) = cursor s"
  "all_task_ids (snd (capabilities n c s)) = all_task_ids s"
  "working_task_ids (snd (capabilities n c s)) = working_task_ids s"
  "working_processes (snd (capabilities n c s)) = working_processes s"
  "rs (snd (capabilities n c s)) = rs s"
  "registered (snd (capabilities n c s)) = registered s"
  "manager_running (snd (capabilities n c s)) = manager_running s"
  "procs (snd (capabilities n c s)) = procs s"
  "now (snd (capabilities n c s)) = now s"
  "calls (snd (capabilities n c s)) = calls s"
  "requests (snd (capabilities n c s)) = requests s"
  "ip (snd (capabilities n c s)) = ip s"
  "live_peak (snd (capabilities n c s)) = live_peak s"
  by (simp_all add: capabilities_def Let_def split: prod.splits)

lemma func_call_frame [simp]:
  "cfg (snd (func_call n a k s)) = cfg s"
  "env (snd (func_call n a k s)) = env s"
  "func (snd (func_call n a k s)) = func s"
  "args_list (snd (func_call n a k s)) = args_list s"
  "cursor (snd (func_call n a k s)) = cursor s"
  "all_task_ids (snd (func_call n a k s)) = all_task_ids s"
  "working_task_ids (snd (func_call n a k s)) = working_task_ids s"
  "working_processes (snd (func_call n a k s)) = working_processes s"
  "rs (snd (func_call n a k s)) = rs s"
  "registered (snd (func_call n a k s)) = registered s"
  "manager_running (snd (func_call n a k s)) = manager_running s"
  "procs (snd (func_call n a k s)) = procs s"
  "now (snd (func_call n a k s)) = now s"
  "worker_log (snd (func_call n a k s)) = worker_log s"
  "requests (snd (func_call n a k s)) = requests s"
  "ip (snd (func_call n a k s)) = ip s"
  "live_peak (snd (func_call n a k s)) = live_peak s"
  by (simp_all add: func_call_def)

lemma try_block_frame [simp]:
  "cfg (snd (try_block n c a s)) = cfg s"
  "env (snd (try_block n c a s)) = env s"
  "func (snd (try_block n c a s)) = func s"
  "args_list (snd (try_block n c a s)) = args_list s"
  "cursor (snd (try_block n c a s)) = cursor s"
  "all_task_ids (snd (try_block n c a s)) = all_task_ids s"
  "working_task_ids (snd (try_block n c a s)) = working_task_ids s"
  "working_processes (snd (try_block n c a s)) = working_processes s"
  "registered (snd (try_block n c a s)) = registered s"
  "manager_running (snd (try_block n c a s)) = manager_running s"
  "procs (snd (try_block n c a s)) = procs s"
  "now (snd (try_block n c a s)) = now s"
  "requests (snd (try_block n c a s)) = requests s"
  "ip (snd (try_block n c a s)) = ip s"
  "live_peak (snd (try_block n c a s)) = live_peak s"
  by (simp_all add: try_block_def Let_def split_beta proxy_setitem_def split: outcome.splits sum.splits)

lemma except_Exception_frame [simp]:
  "cfg (state_of (except_Exception n e s)) = cfg s"
  "env (state_of (except_Exception n e s)) = env s"
  "func (state_of (except_Exception n e s)) = func s"
  "args_list (state_of (except_Exception n e s)) = args_list s"
  "cursor (state_of (except_Exception n e s)) = cursor s"
  "all_task_ids (state_of (except_Exception n e s)) = all_task_ids s"
  "working_task_ids (state_of (except_Exception n e s)) = working_task_ids s"
  "working_processes (state_of (except_Exception n e s)) = working_processes s"
  "registered (state_of (except_Exception n e s)) = registered s"
  "manager_running (state_of (except_Exception n e s)) = manager_running s"
  "procs (state_of (except_Exception n e s)) = procs s"
  "now (state_of (except_Exception n e s)) = now s"
  "worker_log (state_of (except_Exception n e s)) = worker_log s"
  "calls (state_of (except_Exception n e s)) = calls s"
  "requests (state_of (except_Exception n e s)) = requests s"
  "ip (state_of (except_Exception n e s)) = ip s"
  "live_peak (state_of (except_Exception n e s)) = live_peak s"
  by (simp_all add: except_Exception_def proxy_setitem_def split: sum.splits)

lemma except_Exception_not_Hang [simp]: "except_Exception n e s \<noteq> Hang s1"
  by (simp add: except_Exception_def split: sum.splits)

lemma terminate_task_frame [simp]:
  "cfg (state_of (terminate_task n s)) = cfg s"
  "env (state_of (terminate_task n s)) = env s"
  "func (state_of (terminate_task n s)) = func s"
  "args_list (state_of (terminate_task n s)) = args_list s"
  "cursor (state_of (terminate_task n s)) = cursor s"
  "all_task_ids (state_of (terminate_task n s)) = all_task_ids s"
  "working_task_ids (state_of (terminate_task n s)) = working_task_ids s"
  "working_processes (state_of (terminate_task n s)) = working_processes s"
  "registered (state_of (terminate_task n s)) = registered s"
  "manager_running (state_of (terminate_task n s)) = manager_running s"
  "procs (state_of (terminate_task n s)) = procs s"
  "now (state_of (terminate_task n s)) = now s"
  "calls (state_of (terminate_task n s)) = calls s"
  "requests (state_of (terminate_task n s)) = requests s"
  "ip (state_of (terminate_task n s)) = ip s"
  "live_peak (state_of (terminate_task n s)) = live_peak s"
  by (cases "set_terminate s"; simp add: terminate_task_def; use set_terminate_frame [of s] in simp)+

lemma terminate_task_not_Hang [simp]: "terminate_task n s \<noteq> Hang s1"
  by (cases "set_terminate s") (simp_all add: terminate_task_def)

lemma inner_body_unfold:
  "inner_body n c a s =
     (case try_block n c a s of
        (Inr t, s1) \<Rightarrow> if t then terminate_task n s1 else Ok () s1
      | (Inl err, s1) \<Rightarrow>
          if err = KeyboardInterrupt
          then Ok () (log_method n ''key board interrupted'' ERROR s1)
          else (case except_Exception n err s1 of
                  Ok _ s2 \<Rightarrow> terminate_task n s2
                | Raised e s2 \<Rightarrow> Raised e s2
                | Hang s2 \<Rightarrow> Hang s2))"
  by (simp add: inner_body_def split: prod.splits sum.splits py_error.splits)

lemma inner_body_not_Hang [simp]: "inner_body n c a s \<noteq> Hang s1"
  by (simp add: inner_body_unfold split: prod.splits sum.splits res.splits)

text \<open>What holds of the state the adapter leaves behind: any property kept by its steps.\<close>

lemma inner_body_preserves:
  assumes "P (snd (try_block n c a s))"
    and "\<And>s m l. P s \<Longrightarrow> P (log_method n m l s)"
    and "\<And>s e. P s \<Longrightarrow> P (state_of (except_Exception n e s))"
    and "\<And>s. P s \<Longrightarrow> P (state_of (terminate_task n s))"
  shows "P (state_of (inner_body n c a s))"
proof (cases "try_block n c a s")
  case (Pair r s1)
  then have 1: "P s1" using assms(1) by simp
  show ?thesis
  proof (cases r)
    case (Inr t)
    then show ?thesis using Pair 1 assms(4) [OF 1] by (simp add: inner_body_unfold)
  next
    case (Inl err)
    show ?thesis
    proof (cases "err = KeyboardInterrupt")
      case True
      then show ?thesis using Pair Inl assms(2) [OF 1] by (simp add: inner_body_unfold)
    next
      case False
      have 2: "P (state_of (except_Exception n err s1))" using 1 by (rule assms(3))
      show ?thesis
      proof (cases "except_Exception n err s1")
        case (Ok u s2)
        then have "P s2" using 2 by simp
        then have "P (state_of (terminate_task n s2))" by (rule assms(4))
        then show ?thesis using Pair Inl False Ok by (simp add: inner_body_unfold)
      next
        case (Raised e s2)
        then show ?thesis using Pair Inl False 2 by (simp add: inner_body_unfold)
      next
        case (Hang s2)
        then show ?thesis by simp
      qed
    qed
  qed
qed

lemma inner_body_frame [simp]:
  "cfg (state_of (inner_body n c a s)) = cfg s"
  "env (state_of (inner_body n c a s)) = env s"
  "func (state_of (inner_body n c a s)) = func s"
  "args_list (state_of (inner_body n c a s)) = args_list s"
  "cursor (state_of (inner_body n c a s)) = cursor s"
  "all_task_ids (state_of (inner_body n c a s)) = all_task_ids s"
  "working_task_ids (state_of (inner_body n c a s)) = working_task_ids s"
  "working_processes (state_of (inner_body n c a s)) = working_processes s"
  "registered (state_of (inner_body n c a s)) = registered s"
  "manager_running (state_of (inner_body n c a s)) = manager_running s"
  "procs (state_of (inner_body n c a s)) = procs s"
  "now (state_of (inner_body n c a s)) = now s"
  "requests (state_of (inner_body n c a s)) = requests s"
  "ip (state_of (inner_body n c a s)) = ip s"
  "live_peak (state_of (inner_body n c a s)) = live_peak s"
  by (rule inner_body_preserves; simp)+

lemma inner_frame [simp]:
  "cfg (state_of (inner n c a s)) = cfg s"
  "env (state_of (inner n c a s)) = env s"
  "func (state_of (inner n c a s)) = func s"
  "args_list (state_of (inner n c a s)) = args_list s"
  "cursor (state_of (inner n c a s)) = cursor s"
  "all_task_ids (state_of (inner n c a s)) = all_task_ids s"
  "working_task_ids (state_of (inner n c a s)) = working_task_ids s"
  "working_processes (state_of (inner n c a s)) = working_processes s"
  "registered (state_of (inner n c a s)) = registered s"
  "manager_running (state_of (inner n c a s)) = manager_running s"
  "procs (state_of (inner n c a s)) = procs s"
  "now (state_of (inner n c a s)) = now s"
  "requests (state_of (inner n c a s)) = requests s"
  "ip (state_of (inner n c a s)) = ip s"
  "live_peak (state_of (inner n c a s)) = live_peak s"
  by (simp_all add: inner_def split: sum.splits)

lemma child_begin_frame [simp]:
  "cfg (child_begin pid s) = cfg s" "env (child_begin pid s) = env s"
  "func (child_begin pid s) = func s" "args_list (child_begin pid s) = args_list s"
  "cursor (child_begin pid s) = cursor s" "all_task_ids (child_begin pid s) = all_task_ids s"
  "working_task_ids (child_begin pid s) = working_task_ids s"
  "working_processes (child_begin pid s) = working_processes s"
  "registered (child_begin pid s) = registered s"
  "manager_running (child_begin pid s) = manager_running s"
  "now (child_begin pid s) = now s" "rs (child_begin pid s) = rs s"
  "worker_log (child_begin pid s) = worker_log s" "calls (child_begin pid s) = calls s"
  "requests (child_begin pid s) = requests s" "ip (child_begin pid s) = ip s"
  "live_peak (child_begin pid s) = live_peak s"
  "length (procs (child_begin pid s)) = length (procs s)"
  by (simp_all add: child_begin_def split: sum.splits)

lemma child_finish_frame [simp]:
  "cfg (child_finish pid s) = cfg s" "env (child_finish pid s) = env s"
  "func (child_finish pid s) = func s" "args_list (child_finish pid s) = args_list s"
  "cursor (child_finish pid s) = cursor s" "all_task_ids (child_finish pid s) = all_task_ids s"
  "working_task_ids (child_finish pid s) = working_task_ids s"
  "working_processes (child_finish pid s) = working_processes s"
  "registered (child_finish pid s) = registered s"
  "manager_running (child_finish pid s) = manager_running s"
  "now (child_finish pid s) = now s"
  "requests (child_finish pid s) = requests s" "ip (child_finish pid s) = ip s"
  "live_peak (child_finish pid s) = live_peak s"
  "procs (child_finish pid s) = (procs s)[pid := (procs s ! pid)\<lparr>p_exited := True\<rparr>]"
  by (simp_all add: child_finish_def Let_def)

lemma step_child_frame [simp]:
  "cfg (step_child pid s) = cfg s" "env (step_child pid s) = env s"
  "func (step_child pid s) = func s" "args_list (step_child pid s) = args_list s"
  "cursor (step_child pid s) = cursor s" "all_task_ids (step_child pid s) = all_task_ids s"
  "working_task_ids (step_child pid s) = working_task_ids s"
  "working_processes (step_child pid s) = working_processes s"
  "registered (step_child pid s) = registered s"
  "manager_running (step_child pid s) = manager_running s"
  "now (step_child pid s) = now s"
  "requests (step_child pid s) = requests s" "ip (step_child pid s) = ip s"
  "live_peak (step_child pid s) = live_peak s"
  "length (procs (step_child pid s)) = length (procs s)"
  by (simp_all add: step_child_def Let_def split: option.splits)

text \<open>A step of one child leaves the other processes as they are, and keeps the identity,
  the start and, once begun, the beginning of its own.\<close>

lemma step_child_other:
  "q \<noteq> pid \<Longrightarrow> procs (step_child q s) ! pid = procs s ! pid"
  by (simp add: step_child_def Let_def child_begin_def split: option.splits sum.splits)

lemma step_child_static:
  "pid < length (procs s) \<Longrightarrow>
   p_task (procs (step_child q s) ! pid) = p_task (procs s ! pid)
   \<and> p_name (procs (step_child q s) ! pid) = p_name (procs s ! pid)
   \<and> p_cuda (procs (step_child q s) ! pid) = p_cuda (procs s ! pid)
   \<and> p_args (procs (step_child q s) ! pid) = p_args (procs s ! pid)
   \<and> p_started (procs (step_child q s) ! pid) = p_started (procs s ! pid)
   \<and> (p_exited (procs s ! pid) \<longrightarrow> p_exited (procs (step_child q s) ! pid))
   \<and> (p_began (procs s ! pid) \<noteq> None \<longrightarrow>
        p_began (procs (step_child q s) ! pid) = p_began (procs s ! pid))"
  by (cases "q = pid")
     (simp_all add: step_child_def Let_def child_begin_def nth_list_update
        split: option.splits sum.splits)

lemma step_children_frame [simp]:
  "cfg (step_children pids s) = cfg s" "env (step_children pids s) = env s"
  "func (step_children pids s) = func s" "args_list (step_children pids s) = args_list s"
  "cursor (step_children pids s) = cursor s" "all_task_ids (step_children pids s) = all_task_ids s"
  "working_task_ids (step_children pids s) = working_task_ids s"
  "working_processes (step_children pids s) = working_processes s"
  "registered (step_children pids s) = registered s"
  "manager_running (step_children pids s) = manager_running s"
  "now (step_children pids s) = now s"
  "requests (step_children pids s) = requests s" "ip (step_children pids s) = ip s"
  "live_peak (step_children pids s) = live_peak s"
  "length (procs (step_children pids s)) = length (procs s)"
  by (induction pids arbitrary: s; simp)+

lemma step_children_static:
  "pid < length (procs s) \<Longrightarrow>
   p_task (procs (step_children pids s) ! pid) = p_task (procs s ! pid)
   \<and> p_name (procs (step_children pids s) ! pid) = p_name (procs s ! pid)
   \<and> p_cuda (procs (step_children pids s) ! pid) = p_cuda (procs s ! pid)
   \<and> p_args (procs (step_children pids s) ! pid) = p_args (procs s ! pid)
   \<and> p_started (procs (step_children pids s) ! pid) = p_started (procs s ! pid)
   \<and> (p_exited (procs s ! pid) \<longrightarrow> p_exited (procs (step_children pids s) ! pid))
   \<and> (p_began (procs s ! pid) \<noteq> None \<longrightarrow>
        p_began (procs (step_children pids s) ! pid) = p_began (procs s ! pid))"
proof (induction pids arbitrary: s)
  case Nil
  then show ?case by simp
next
  case (Cons q pids)
  have len: "pid < length (procs (step_child q s))" using Cons.prems by simp
  from Cons.IH [OF len] step_child_static [OF Cons.prems, of q]
  show ?case by simp
qed

lemma step_children_other:
  "pid \<notin> set pids \<Longrightarrow> procs (step_children pids s) ! pid = procs s ! pid"
  by (induction pids arbitrary: s) (simp_all add: step_child_other)

text \<open>The step the process itself takes within \<open>step_children\<close>.\<close>

lemma step_children_own:
  "pid \<in> set pids \<Longrightarrow> distinct pids \<Longrightarrow>
   \<exists>s1. now s1 = now s \<and> env s1 = env s \<and> procs s1 ! pid = procs s ! pid
     \<and> length (procs s1) = length (procs s)
     \<and> procs (step_children pids s) ! pid = procs (step_child pid s1) ! pid"
proof (induction pids arbitrary: s)
  case Nil
  then show ?case by simp
next
  case (Cons q pids)
  show ?case
  proof (cases "q = pid")
    case True
    with Cons.prems have "pid \<notin> set pids" by simp
    then have "procs (step_children pids (step_child pid s)) ! pid = procs (step_child pid s) ! pid"
      by (rule step_children_other)
    with True show ?thesis by (intro exI [of _ s]) simp
  next
    case False
    with Cons.prems have in_rest: "pid \<in> set pids" and d: "distinct pids" by simp_all
    from Cons.IH [OF in_rest d, of "step_child q s"] obtain s1 where
      s1: "now s1 = now (step_child q s)" "env s1 = env (step_child q s)"
        "procs s1 ! pid = procs (step_child q s) ! pid"
        "length (procs s1) = length (procs (step_child q s))"
        "procs (step_children pids (step_child q s)) ! pid = procs (step_child pid s1) ! pid"
      by blast
    have "procs (step_child q s) ! pid = procs s ! pid"
      using False by (rule step_child_other)
    with s1 show ?thesis by (intro exI [of _ s1]) simp
  qed
qed

lemma tick_frame [simp]:
  "cfg (tick s) = cfg s" "env (tick s) = env s"
  "func (tick s) = func s" "args_list (tick s) = args_list s"
  "cursor (tick s) = cursor s" "all_task_ids (tick s) = all_task_ids s"
  "working_task_ids (tick s) = working_task_ids s"
  "working_processes (tick s) = working_processes s"
  "registered (tick s) = registered s"
  "manager_running (tick s) = manager_running s"
  "now (tick s) = now s + 1"
  "requests (tick s) = requests s" "ip (tick s) = ip s"
  "live_peak (tick s) = live_peak s"
  "length (procs (tick s)) = length (procs s)"
  by (simp_all add: tick_def Let_def)

lemma tick_static:
  "pid < length (procs s) \<Longrightarrow>
   p_task (procs (tick s) ! pid) = p_task (procs s ! pid)
   \<and> p_name (procs (tick s) ! pid) = p_name (procs s ! pid)
   \<and> p_cuda (procs (tick s) ! pid) = p_cuda (procs s ! pid)
   \<and> p_args (procs (tick s) ! pid) = p_args (procs s ! pid)
   \<and> p_started (procs (tick s) ! pid) = p_started (procs s ! pid)
   \<and> (p_exited (procs s ! pid) \<longrightarrow> p_exited (procs (tick s) ! pid))
   \<and> (p_began (procs s ! pid) \<noteq> None \<longrightarrow> p_began (procs (tick s) ! pid) = p_began (procs s ! pid))"
  using step_children_static [of pid s "[0..<length (procs s)]"]
  by (simp add: tick_def Let_def)

lemma is_alive_tick: "is_alive (tick s) pid \<Longrightarrow> is_alive s pid"
  using tick_static [of pid s] by (auto simp add: is_alive_def)

lemma tick_own:
  assumes "pid < length (procs s)"
  shows "\<exists>s1. now s1 = now s \<and> env s1 = env s \<and> procs s1 ! pid = procs s ! pid
     \<and> length (procs s1) = length (procs s)
     \<and> procs (tick s) ! pid = procs (step_child pid s1) ! pid"
  using step_children_own [of pid "[0..<length (procs s)]" s] assms
  by (simp add: tick_def Let_def)

lemma remaining_tick:
  assumes "is_alive (tick s) pid"
  shows "remaining (tick s) pid < remaining s pid"
proof -
  have alive: "is_alive s pid" using assms by (rule is_alive_tick)
  then have len: "pid < length (procs s)" by (simp add: is_alive_def)
  let ?p = "procs s ! pid" and ?p' = "procs (tick s) ! pid"
  from alive obtain t0 where t0: "p_started ?p = Some t0" and ne: "\<not> p_exited ?p"
    by (auto simp add: is_alive_def)
  have ne': "\<not> p_exited ?p'" using assms by (simp add: is_alive_def)
  from tick_own [OF len] obtain s1 where
    s1: "now s1 = now s" "env s1 = env s" "procs s1 ! pid = ?p" "length (procs s1) = length (procs s)"
      "?p' = procs (step_child pid s1) ! pid"
    by blast
  have len1: "pid < length (procs s1)" using len s1 by simp
  have r: "remaining s pid = (case p_began ?p of
      None \<Rightarrow> t0 + task_startup (env s) (p_task ?p) - now s + task_duration (env s) (p_task ?p) + 3
    | Some t1 \<Rightarrow> Suc (t1 + task_duration (env s) (p_task ?p) - now s))"
    using alive t0 by (simp add: remaining_def Let_def split: option.splits)
  have r': "remaining (tick s) pid = (case p_began ?p' of
      None \<Rightarrow> the (p_started ?p') + task_startup (env s) (p_task ?p') - Suc (now s)
                + task_duration (env s) (p_task ?p') + 3
    | Some t1 \<Rightarrow> Suc (t1 + task_duration (env s) (p_task ?p') - Suc (now s)))"
    using assms by (simp add: remaining_def Let_def split: option.splits)
  show ?thesis
  proof (cases "p_began ?p")
    case (Some t1)
    show ?thesis
    proof (cases "t1 + task_duration (env s) (p_task ?p) \<le> now s")
      case True
      then have "p_exited (procs (step_child pid s1) ! pid)"
        using s1 t0 ne Some len1 by (simp add: step_child_def Let_def)
      with s1 ne' show ?thesis by simp
    next
      case False
      then have "?p' = ?p"
        using s1 t0 ne Some len1 by (simp add: step_child_def Let_def)
      with False Some show ?thesis unfolding r r' by simp
    qed
  next
    case None
    show ?thesis
    proof (cases "t0 + task_startup (env s) (p_task ?p) \<le> now s")
      case True
      show ?thesis
      proof (cases "\<exists>flag. terminated s1 = Inr flag \<and> \<not> truthy flag")
        case f: False
        then have "p_exited (procs (step_child pid s1) ! pid)"
          using s1 t0 ne None len1 True
          by (auto simp add: step_child_def Let_def child_begin_def split: sum.splits)
        with s1 ne' show ?thesis by simp
      next
        case t: True
        then have "?p' = ?p\<lparr>p_began := Some (now s)\<rparr>"
          using s1 t0 ne None len1 True
          by (auto simp add: step_child_def Let_def child_begin_def split: sum.splits)
        with None True show ?thesis unfolding r r' by simp
      qed
    next
      case False
      then have "?p' = ?p"
        using s1 t0 ne None len1 by (simp add: step_child_def Let_def)
      with False None t0 show ?thesis unfolding r r' by simp
    qed
  qed
qed

lemma remaining_pos: "is_alive s pid \<Longrightarrow> 0 < remaining s pid"
  by (simp add: remaining_def Let_def split: option.splits)

lemma remaining_dead: "\<not> is_alive s pid \<Longrightarrow> remaining s pid = 0"
  by (simp add: remaining_def)

lemma remaining_tick_le: "remaining (tick s) pid \<le> remaining s pid"
  using remaining_tick [of s pid] by (cases "is_alive (tick s) pid") (simp_all add: remaining_dead)

text \<open>\<^verbatim>\<open>Process.join()\<close> blocks until the child has exited: time passes until then.\<close>

function join_loop :: "nat \<Rightarrow> parallel \<Rightarrow> parallel" where
  "join_loop pid self = (if is_alive self pid then join_loop pid (tick self) else self)"
  by pat_completeness auto
termination
proof (relation "measure (\<lambda>(pid, self). remaining self pid)")
  show "wf (measure (\<lambda>(pid, self). remaining self pid))" by simp
next
  fix pid self
  assume a: "is_alive self pid"
  show "((pid, tick self), (pid, self)) \<in> measure (\<lambda>(pid, self). remaining self pid)"
  proof (cases "is_alive (tick self) pid")
    case True
    then show ?thesis using remaining_tick by simp
  next
    case False
    then show ?thesis using a by (simp add: remaining_dead remaining_pos)
  qed
qed

declare join_loop.simps [simp del]

subsection \<open>The supervisor\<close>

text \<open>
  The user's interrupt reaches the parent at one of its interruption points: each turn of
  the loop of \<^verbatim>\<open>__wait\<close> (inside its \<^verbatim>\<open>try\<close>), and each call of \<^verbatim>\<open>_get_process\<close>
  (outside it). Passing a point counts it, and raises \<^verbatim>\<open>KeyboardInterrupt\<close> there when
  it is the one the environment names.
\<close>

definition interruption_point :: "parallel \<Rightarrow> bool \<times> parallel" where
  "interruption_point self = (sigint_at (env self) = Some (ip self), self\<lparr>ip := ip self + 1\<rparr>)"

definition sigint_pending :: "parallel \<Rightarrow> bool" where
  "sigint_pending self = (case sigint_at (env self) of None \<Rightarrow> False | Some k \<Rightarrow> ip self \<le> k)"

text \<open>
  \<^verbatim>\<open>__wait\<close> (lines 210 to 235). A slot is finished when it holds \<^verbatim>\<open>None\<close> or a
  process that is not alive; the slots polled are those of
  \<^verbatim>\<open>zip(self._working_task_ids, self._working_processes)\<close>. \<^verbatim>\<open>__sleep\<close> with
  \<^verbatim>\<open>skip_check_finished=True\<close> is a tick: \<^verbatim>\<open>_refresh\<close> then only calls into the
  resource manager. With no slot to poll and no interrupt to come the loop never ends:
  that is the result \<open>Hang\<close>. The task name computed at line 226 is only logged.
\<close>

definition slot_finished :: "parallel \<Rightarrow> nat option \<Rightarrow> bool" where
  "slot_finished self process = (case process of None \<Rightarrow> True | Some pid \<Rightarrow> \<not> is_alive self pid)"

definition poll_slots :: "parallel \<Rightarrow> nat option list \<Rightarrow> nat list" where
  "poll_slots self wps =
     filter (\<lambda>i. slot_finished self (wps ! i))
       [0..<length (zip (working_task_ids self) wps)]"

definition wait_measure :: "bool \<times> parallel \<Rightarrow> nat" where
  "wait_measure = (\<lambda>(b, self).
     (case sigint_at (env self) of None \<Rightarrow> 0 | Some k \<Rightarrow> Suc k - ip self)
     + (case working_processes self of
          Some (Some pid # _) \<Rightarrow> remaining self pid
        | _ \<Rightarrow> 0))"

function wait :: "bool \<Rightarrow> parallel \<Rightarrow> nat list res" where
  "wait wait_until_finished self =
     (case working_processes self of
        None \<Rightarrow> Raised (TypeError ''zip argument #2 must support iteration'') self
      | Some wps \<Rightarrow>
          (case interruption_point self of
             (True, self) \<Rightarrow>
               (case set_terminate self of
                  Ok _ self \<Rightarrow> Raised (ParallelError ''Keyboard Interrupted'') self
                | Raised e self \<Rightarrow> Raised e self
                | Hang self \<Rightarrow> Hang self)
           | (False, self) \<Rightarrow>
               (let finished_slots = poll_slots self wps in
                if \<not> wait_until_finished \<or> finished_slots \<noteq> [] then Ok finished_slots self
                else if zip (working_task_ids self) wps = [] \<and> \<not> sigint_pending self
                then Hang self
                else wait wait_until_finished (tick self))))"
  by pat_completeness auto
termination
proof (relation "measure wait_measure")
  show "wf (measure wait_measure)" by simp
next
  fix wait_until_finished :: bool and self wps x y xa
  assume wp: "working_processes self = Some wps"
    and ipt: "(x, y) = interruption_point self" and "x = False"
    and xa: "xa = poll_slots y wps"
    and cont: "\<not> (\<not> wait_until_finished \<or> xa \<noteq> [])"
    and nh: "\<not> (zip (working_task_ids y) wps = [] \<and> \<not> sigint_pending y)"
  have y: "y = self\<lparr>ip := Suc (ip self)\<rparr>" using ipt by (simp add: interruption_point_def)
  have nf: "poll_slots y wps = []" using cont xa by simp
  have rem_y: "\<And>pid. remaining y pid = remaining self pid"
    by (simp add: y remaining_def is_alive_def Let_def split: option.splits)
  have first_le: "(case sigint_at (env self) of None \<Rightarrow> 0 | Some k \<Rightarrow> Suc k - ip (tick y))
      \<le> (case sigint_at (env self) of None \<Rightarrow> 0 | Some k \<Rightarrow> Suc k - ip self)"
    by (auto simp add: y split: option.splits)
  have second_le: "(case working_processes self of Some (Some pid # _) \<Rightarrow> remaining (tick y) pid | _ \<Rightarrow> 0)
      \<le> (case working_processes self of Some (Some pid # _) \<Rightarrow> remaining self pid | _ \<Rightarrow> 0)"
    using remaining_tick_le [of y] by (simp add: rem_y split: option.splits list.splits)
  have wm: "wait_measure (wait_until_finished, tick y)
      = (case sigint_at (env self) of None \<Rightarrow> 0 | Some k \<Rightarrow> Suc k - ip (tick y))
        + (case working_processes self of Some (Some pid # _) \<Rightarrow> remaining (tick y) pid | _ \<Rightarrow> 0)"
    unfolding y by (simp add: wait_measure_def)
  have wm0: "wait_measure (wait_until_finished, self)
      = (case sigint_at (env self) of None \<Rightarrow> 0 | Some k \<Rightarrow> Suc k - ip self)
        + (case working_processes self of Some (Some pid # _) \<Rightarrow> remaining self pid | _ \<Rightarrow> 0)"
    by (simp add: wait_measure_def)
  have "wait_measure (wait_until_finished, tick y) < wait_measure (wait_until_finished, self)"
  proof (cases "zip (working_task_ids y) wps = []")
    case True
    with nh have "sigint_pending y" by simp
    then have "(case sigint_at (env self) of None \<Rightarrow> 0 | Some k \<Rightarrow> Suc k - ip (tick y))
      < (case sigint_at (env self) of None \<Rightarrow> 0 | Some k \<Rightarrow> Suc k - ip self)"
      by (auto simp add: sigint_pending_def y split: option.splits)
    with second_le show ?thesis unfolding wm wm0 by linarith
  next
    case False
    then obtain p0 rest where wps: "wps = p0 # rest" and nz: "working_task_ids y \<noteq> []"
      by (cases wps; cases "working_task_ids y") simp_all
    have "0 \<in> set [0..<length (zip (working_task_ids y) wps)]" using False by simp
    with nf have "\<not> slot_finished y (wps ! 0)"
      unfolding poll_slots_def by (metis (mono_tags, lifting) filter_empty_conv)
    then obtain pid where p0: "p0 = Some pid" and alive: "is_alive y pid"
      by (auto simp add: slot_finished_def wps split: option.splits)
    have "remaining (tick y) pid < remaining y pid"
    proof (cases "is_alive (tick y) pid")
      case True
      then show ?thesis by (rule remaining_tick)
    next
      case False
      then show ?thesis using alive by (simp add: remaining_dead remaining_pos)
    qed
    then have "(case working_processes self of Some (Some pid # _) \<Rightarrow> remaining (tick y) pid | _ \<Rightarrow> 0)
      < (case working_processes self of Some (Some pid # _) \<Rightarrow> remaining self pid | _ \<Rightarrow> 0)"
      by (simp add: wp wps p0 rem_y)
    with first_le show ?thesis unfolding wm wm0 by linarith
  qed
  then show "((wait_until_finished, tick y), (wait_until_finished, self)) \<in> measure wait_measure"
    by simp
qed

declare wait.simps [simp del]

text \<open>
  \<^verbatim>\<open>_user_terminate\<close> (lines 285 to 296): join the working processes, then raise one of
  two errors by whether \<^verbatim>\<open>__exceptions__\<close> is empty. Joining a process that was never
  started is an assertion error of \<^verbatim>\<open>multiprocessing\<close>.
\<close>

definition process_join :: "nat \<Rightarrow> parallel \<Rightarrow> unit res" where
  "process_join pid self =
     (if pid < length (procs self) \<and> p_started (procs self ! pid) = None
      then Raised (AssertionError ''can only join a started process'') self
      else Ok () (join_loop pid self))"

fun join_all :: "nat option list \<Rightarrow> parallel \<Rightarrow> unit res" where
  "join_all [] self = Ok () self"
| "join_all (None # rest) self = join_all rest self"
| "join_all (Some pid # rest) self =
     (case process_join pid self of
        Ok _ self \<Rightarrow> join_all rest self
      | Raised e self \<Rightarrow> Raised e self
      | Hang self \<Rightarrow> Hang self)"

definition user_terminate :: "parallel \<Rightarrow> unit res" where
  "user_terminate self =
     (case working_processes self of
        None \<Rightarrow> Raised (TypeError ''NoneType object is not iterable'') self
      | Some wps \<Rightarrow>
          (case join_all wps self of
             Raised e self \<Rightarrow> Raised e self
           | Hang self \<Rightarrow> Hang self
           | Ok _ self \<Rightarrow>
               (case exceptions self of
                  Inl e \<Rightarrow> Raised e self
                | Inr recorded_exceptions \<Rightarrow>
                    if \<not> truthy recorded_exceptions
                    then Raised (ParallelError ''Parallel terminated by user action'') self
                    else Raised (ParallelError ''Parallel terminated by unexpected errors'') self)))"

text \<open>
  \<^verbatim>\<open>_wait_and_handle_finish\<close> (lines 255 to 269): \<^verbatim>\<open>list.pop\<close> at each finished slot,
  highest first, on both working lists. \<^verbatim>\<open>handle_finish\<close> of the resource manager
  and \<^verbatim>\<open>del_logger\<close> change nothing of the model.
\<close>

definition list_pop :: "nat \<Rightarrow> 'a list \<Rightarrow> 'a list" where
  "list_pop i xs = take i xs @ drop (Suc i) xs"

definition pop_slots :: "nat list \<Rightarrow> 'a list \<Rightarrow> 'a list" where
  "pop_slots finished_slots xs = foldl (\<lambda>ys i. list_pop i ys) xs (rev finished_slots)"

definition wait_and_handle_finish :: "bool \<Rightarrow> parallel \<Rightarrow> unit res" where
  "wait_and_handle_finish wait_until_finish self =
     (case wait wait_until_finish self of
        Raised e self \<Rightarrow> Raised e self
      | Hang self \<Rightarrow> Hang self
      | Ok finished_slots self \<Rightarrow>
          if finished_slots = [] then Ok () self
          else
            (case terminated self of
               Inl e \<Rightarrow> Raised e self
             | Inr flag \<Rightarrow>
                 if truthy flag then user_terminate self
                 else Ok () (self\<lparr>working_task_ids := pop_slots finished_slots (working_task_ids self),
                                   working_processes :=
                                     map_option (pop_slots finished_slots) (working_processes self)\<rparr>)))"

text \<open>
  \<^verbatim>\<open>_refresh\<close> (lines 243 to 253) and \<^verbatim>\<open>__sleep\<close> (lines 206 to 208), as the callback
  \<^verbatim>\<open>lambda: self.__sleep(skip_check_finished=False)\<close> that \<^verbatim>\<open>_get_process\<close> hands to
  the resource manager uses them.
\<close>

definition refresh :: "bool \<Rightarrow> bool \<Rightarrow> parallel \<Rightarrow> unit res" where
  "refresh checkpoint_initialized skip_check_finished self =
     (if \<not> checkpoint_initialized then Ok () self
      else if \<not> skip_check_finished then wait_and_handle_finish False self
      else Ok () self)"

definition sleep :: "bool \<Rightarrow> bool \<Rightarrow> parallel \<Rightarrow> unit res" where
  "sleep checkpoint_initialized skip_check_finished self =
     refresh checkpoint_initialized skip_check_finished (tick self)"

fun run_deferrals :: "bool list \<Rightarrow> parallel \<Rightarrow> unit res" where
  "run_deferrals [] self = Ok () self"
| "run_deferrals (checkpoint_initialized # rest) self =
     (case sleep checkpoint_initialized False self of
        Ok _ self \<Rightarrow> run_deferrals rest self
      | Raised e self \<Rightarrow> Raised e self
      | Hang self \<Rightarrow> Hang self)"

text \<open>
  \<^verbatim>\<open>_get_process\<close> (lines 381 to 399). \<open>process_args\<close> is
  \<^verbatim>\<open>tuple(args[task_id] for args in self._args_list)\<close>. The result is the new process, or
  \<open>None\<close> when the resource manager answered not to create one.
\<close>

fun process_args :: "pyval list list \<Rightarrow> nat \<Rightarrow> py_error + pyval list" where
  "process_args [] task_id = Inr []"
| "process_args (col # cols) task_id =
     (case list_get col (int task_id) of
        Inl e \<Rightarrow> Inl e
      | Inr a \<Rightarrow> (case process_args cols task_id of Inl e \<Rightarrow> Inl e | Inr as \<Rightarrow> Inr (a # as)))"

definition get_process :: "nat \<Rightarrow> bool \<Rightarrow> parallel \<Rightarrow> nat option res" where
  "get_process task_id start self =
     (case interruption_point self of
        (True, self) \<Rightarrow> Raised KeyboardInterrupt self
      | (False, self) \<Rightarrow>
          (let answer = resource_manager (env self) (requests self) task_id;
               self = self\<lparr>requests := requests self + 1\<rparr>
           in case run_deferrals (deferrals answer) self of
                Raised e self \<Rightarrow> Raised e self
              | Hang self \<Rightarrow> Hang self
              | Ok _ self \<Rightarrow>
                  if \<not> create_process answer then Ok None self
                  else
                    (let cuda = (if \<not> use_cuda (cfg self) \<or> gpu answer = None then None
                                 else gpu answer)
                     in case get_task_name self task_id of
                          Inl e \<Rightarrow> Raised e self
                        | Inr task_name \<Rightarrow>
                            (case process_args (args_list self) task_id of
                               Inl e \<Rightarrow> Raised e self
                             | Inr args \<Rightarrow>
                                 (let pid = length (procs self);
                                      self = self\<lparr>procs := procs self @
                                        [\<lparr>p_task = task_id, p_name = task_name, p_cuda = cuda,
                                          p_args = args, p_started = None, p_began = None,
                                          p_exited = False\<rparr>]\<rparr>
                                  in if start then Ok (Some pid) (process_start pid self)
                                     else Ok (Some pid) self)))))"

text \<open>
  \<^verbatim>\<open>_add_new_processes\<close> (lines 271 to 283); \<open>add_loop\<close> is its \<^verbatim>\<open>for\<close> loop. Note that
  the new jobs are counted against \<^verbatim>\<open>self._n_jobs\<close>, the number given to the
  constructor.
\<close>

fun add_loop :: "nat \<Rightarrow> parallel \<Rightarrow> unit res" where
  "add_loop 0 self = Ok () self"
| "add_loop (Suc n) self =
     (case list_get (all_task_ids self) (int (cursor self)) of
        Inl e \<Rightarrow> Raised e self
      | Inr new_task_id \<Rightarrow>
          (case working_processes self of
             None \<Rightarrow> Raised (AttributeError ''NoneType object has no attribute append'') self
           | Some _ \<Rightarrow>
               (case get_process new_task_id True self of
                  Raised e self \<Rightarrow> Raised e self
                | Hang self \<Rightarrow> Hang self
                | Ok process self \<Rightarrow>
                    add_loop n
                      (self\<lparr>working_processes := map_option (\<lambda>wps. wps @ [process]) (working_processes self),
                             working_task_ids := working_task_ids self @ [Some new_task_id],
                             cursor := cursor self + 1\<rparr>))))"

definition add_new_processes :: "parallel \<Rightarrow> bool res" where
  "add_new_processes self =
     (case working_processes self of
        None \<Rightarrow> Raised (TypeError ''object of type NoneType has no len()'') self
      | Some wps \<Rightarrow>
          (let n_working = length wps;
               n_new_jobs = num_jobs (cfg self) - n_working;
               n_res = length (all_task_ids self) - cursor self
           in if n_res > 0 then
                (let n_new_jobs = min n_new_jobs n_res
                 in case add_loop n_new_jobs self of
                      Ok _ self \<Rightarrow> Ok True self
                    | Raised e self \<Rightarrow> Raised e self
                    | Hang self \<Rightarrow> Hang self)
              else Ok (n_working > 0) self))"

text \<open>The length of \<^verbatim>\<open>self._working_processes\<close>.\<close>

definition wlen :: "parallel \<Rightarrow> nat" where
  "wlen s = (case working_processes s of None \<Rightarrow> 0 | Some wps \<Rightarrow> length wps)"

lemma wait_unfold:
  "wait b s =
     (case working_processes s of
        None \<Rightarrow> Raised (TypeError ''zip argument #2 must support iteration'') s
      | Some wps \<Rightarrow>
          if sigint_at (env s) = Some (ip s)
          then (case set_terminate (s\<lparr>ip := Suc (ip s)\<rparr>) of
                  Ok _ s1 \<Rightarrow> Raised (ParallelError ''Keyboard Interrupted'') s1
                | Raised e s1 \<Rightarrow> Raised e s1
                | Hang s1 \<Rightarrow> Hang s1)
          else if \<not> b \<or> poll_slots (s\<lparr>ip := Suc (ip s)\<rparr>) wps \<noteq> []
          then Ok (poll_slots (s\<lparr>ip := Suc (ip s)\<rparr>) wps) (s\<lparr>ip := Suc (ip s)\<rparr>)
          else if zip (working_task_ids s) wps = [] \<and> \<not> sigint_pending (s\<lparr>ip := Suc (ip s)\<rparr>)
          then Hang (s\<lparr>ip := Suc (ip s)\<rparr>)
          else wait b (tick (s\<lparr>ip := Suc (ip s)\<rparr>)))"
  by (subst wait.simps) (simp add: interruption_point_def Let_def split: option.splits)

lemma wait_induct [consumes 0, case_names step]:
  assumes "\<And>b s. (\<And>wps. working_processes s = Some wps \<Longrightarrow> sigint_at (env s) \<noteq> Some (ip s) \<Longrightarrow>
              b \<Longrightarrow> poll_slots (s\<lparr>ip := Suc (ip s)\<rparr>) wps = [] \<Longrightarrow>
              \<not> (zip (working_task_ids s) wps = [] \<and> \<not> sigint_pending (s\<lparr>ip := Suc (ip s)\<rparr>)) \<Longrightarrow>
              P b (tick (s\<lparr>ip := Suc (ip s)\<rparr>))) \<Longrightarrow> P b s"
  shows "P b s"
proof (induction b s rule: wait.induct)
  case (1 b s)
  show ?case
  proof (rule assms)
    fix wps
    assume a: "working_processes s = Some wps" "sigint_at (env s) \<noteq> Some (ip s)" "b"
      "poll_slots (s\<lparr>ip := Suc (ip s)\<rparr>) wps = []"
      "\<not> (zip (working_task_ids s) wps = [] \<and> \<not> sigint_pending (s\<lparr>ip := Suc (ip s)\<rparr>))"
    show "P b (tick (s\<lparr>ip := Suc (ip s)\<rparr>))"
      by (rule "1.IH" [OF a(1), of False "s\<lparr>ip := Suc (ip s)\<rparr>"])
         (use a in \<open>simp_all add: interruption_point_def\<close>)
  qed
qed

text \<open>What holds of the state \<open>wait\<close> leaves behind: any property kept by the steps it takes.\<close>

lemma wait_preserves:
  assumes "P s"
    and "\<And>s. P s \<Longrightarrow> P (s\<lparr>ip := Suc (ip s)\<rparr>)"
    and "\<And>s. P s \<Longrightarrow> P (state_of (set_terminate s))"
    and "\<And>s. P s \<Longrightarrow> P (tick s)"
  shows "P (state_of (wait b s))"
  using assms(1)
proof (induction b s rule: wait_induct)
  case (step b s)
  show ?case
  proof (cases "working_processes s")
    case None
    then show ?thesis using step.prems by (subst wait_unfold) simp
  next
    case (Some wps)
    have 1: "P (s\<lparr>ip := Suc (ip s)\<rparr>)" using step.prems by (rule assms(2))
    show ?thesis
    proof (cases "sigint_at (env s) \<noteq> Some (ip s) \<and> b \<and> poll_slots (s\<lparr>ip := Suc (ip s)\<rparr>) wps = []
        \<and> \<not> (zip (working_task_ids s) wps = [] \<and> \<not> sigint_pending (s\<lparr>ip := Suc (ip s)\<rparr>))")
      case True
      then have "wait b s = wait b (tick (s\<lparr>ip := Suc (ip s)\<rparr>))"
        by (subst wait_unfold) (auto simp add: Some)
      moreover have "P (state_of (wait b (tick (s\<lparr>ip := Suc (ip s)\<rparr>))))"
        using True Some 1 by (intro step.IH assms(4)) auto
      ultimately show ?thesis by simp
    next
      case False
      have "P (state_of (set_terminate (s\<lparr>ip := Suc (ip s)\<rparr>)))" using 1 by (rule assms(3))
      then show ?thesis
        using 1 False
        by (subst wait_unfold) (auto simp add: Some split: res.splits)
    qed
  qed
qed

lemma wait_Ok:
  "wait b s = Ok fs s' \<Longrightarrow>
   \<exists>wps. working_processes s' = Some wps \<and> fs = poll_slots s' wps \<and> (b \<longrightarrow> fs \<noteq> [])"
proof (induction b s rule: wait_induct)
  case (step b s)
  show ?case
  proof (cases "working_processes s")
    case None
    then show ?thesis using step.prems by (subst (asm) wait_unfold) simp
  next
    case (Some wps)
    show ?thesis
    proof (cases "sigint_at (env s) \<noteq> Some (ip s) \<and> b \<and> poll_slots (s\<lparr>ip := Suc (ip s)\<rparr>) wps = []
        \<and> \<not> (zip (working_task_ids s) wps = [] \<and> \<not> sigint_pending (s\<lparr>ip := Suc (ip s)\<rparr>))")
      case True
      then have "wait b s = wait b (tick (s\<lparr>ip := Suc (ip s)\<rparr>))"
        by (subst wait_unfold) (auto simp add: Some)
      with step.prems have "wait b (tick (s\<lparr>ip := Suc (ip s)\<rparr>)) = Ok fs s'" by simp
      with True Some show ?thesis by (intro step.IH) auto
    next
      case False
      then show ?thesis
        using step.prems
        by (subst (asm) wait_unfold) (auto simp add: Some split: if_splits res.splits)
    qed
  qed
qed

lemma join_loop_preserves:
  assumes "P s" and "\<And>s. P s \<Longrightarrow> P (tick s)"
  shows "P (join_loop pid s)"
  using assms(1)
proof (induction pid s rule: join_loop.induct)
  case (1 pid s)
  show ?case
  proof (cases "is_alive s pid")
    case True
    then have "join_loop pid s = join_loop pid (tick s)" by (subst join_loop.simps) simp
    with "1.IH" [OF True] assms(2) [OF "1.prems"] show ?thesis by simp
  next
    case False
    then show ?thesis using "1.prems" by (subst join_loop.simps) simp
  qed
qed

lemma join_all_preserves:
  assumes "P s" and "\<And>s. P s \<Longrightarrow> P (tick s)"
  shows "P (state_of (join_all wps s))"
  using assms(1)
proof (induction wps s rule: join_all.induct)
  case (1 s)
  then show ?case by simp
next
  case (2 rest s)
  then show ?case by simp
next
  case (3 pid rest s)
  show ?case
  proof (cases "pid < length (procs s) \<and> p_started (procs s ! pid) = None")
    case True
    then show ?thesis using "3.prems" by (simp add: process_join_def)
  next
    case False
    then have pj: "process_join pid s = Ok () (join_loop pid s)" by (auto simp add: process_join_def)
    have "P (join_loop pid s)" using "3.prems" assms(2) by (rule join_loop_preserves)
    from "3.IH" [OF pj this] show ?thesis by (simp add: pj)
  qed
qed

lemma user_terminate_preserves:
  assumes "P s" and "\<And>s. P s \<Longrightarrow> P (tick s)"
  shows "P (state_of (user_terminate s))"
proof (cases "working_processes s")
  case None
  then show ?thesis using assms(1) by (simp add: user_terminate_def)
next
  case (Some wps)
  have "P (state_of (join_all wps s))" using assms by (rule join_all_preserves)
  then show ?thesis
    by (cases "join_all wps s") (simp_all add: user_terminate_def Some Let_def split: sum.splits)
qed

lemma user_terminate_not_Ok [simp]: "user_terminate s \<noteq> Ok x s'"
  by (auto simp add: user_terminate_def Let_def split: option.splits res.splits sum.splits)

subsection \<open>Popping finished slots\<close>

lemma length_list_pop: "i < length xs \<Longrightarrow> length (list_pop i xs) = length xs - 1"
  by (simp add: list_pop_def)

lemma nth_list_pop: "j < i \<Longrightarrow> i < length xs \<Longrightarrow> list_pop i xs ! j = xs ! j"
  by (simp add: list_pop_def nth_append)

lemma set_list_pop: "set (list_pop i xs) \<subseteq> set xs"
  by (auto simp add: list_pop_def dest: in_set_takeD in_set_dropD)

lemma in_list_pop: "x \<in> set xs \<Longrightarrow> i < length xs \<Longrightarrow> xs ! i \<noteq> x \<Longrightarrow> x \<in> set (list_pop i xs)"
proof -
  assume a: "x \<in> set xs" "i < length xs" "xs ! i \<noteq> x"
  have "xs = take i xs @ xs ! i # drop (Suc i) xs" using a(2) by (rule id_take_nth_drop)
  then have "set xs = set (take i xs) \<union> {xs ! i} \<union> set (drop (Suc i) xs)"
    by (metis Un_insert_right append_Nil2 list.simps(15) set_append sup_bot.right_neutral Un_assoc insert_is_Un)
  with a show ?thesis by (auto simp add: list_pop_def)
qed

lemma filter_list_pop_le: "length (filter Q (list_pop i xs)) \<le> length (filter Q xs)"
proof -
  have "length (filter Q (take i xs)) + length (filter Q (drop i xs)) = length (filter Q xs)"
    by (metis append_take_drop_id filter_append length_append)
  moreover have "length (filter Q (drop (Suc i) xs)) \<le> length (filter Q (drop i xs))"
  proof (cases "i < length xs")
    case True
    then have "drop i xs = xs ! i # drop (Suc i) xs" by (rule Cons_nth_drop_Suc [symmetric])
    then show ?thesis by simp
  next
    case False
    then show ?thesis by simp
  qed
  ultimately show ?thesis by (simp add: list_pop_def)
qed

text \<open>Descending indices: what \<open>finished_slots[::-1]\<close> is for a poll result.\<close>

lemma foldl_pop_length:
  "sorted_wrt (>) ds \<Longrightarrow> \<forall>i\<in>set ds. i < length xs \<Longrightarrow>
   length (foldl (\<lambda>ys i. list_pop i ys) xs ds) = length xs - length ds"
proof (induction ds arbitrary: xs)
  case Nil
  then show ?case by simp
next
  case (Cons i ds)
  have i: "i < length xs" using Cons.prems by simp
  have "\<forall>j\<in>set ds. j < length (list_pop i xs)"
    using Cons.prems i by (auto simp add: length_list_pop)
  with Cons.IH [of "list_pop i xs"] Cons.prems i show ?case
    by (simp add: length_list_pop)
qed

lemma foldl_pop_keeps:
  "sorted_wrt (>) ds \<Longrightarrow> \<forall>i\<in>set ds. i < length xs \<and> xs ! i \<noteq> x \<Longrightarrow> x \<in> set xs \<Longrightarrow>
   x \<in> set (foldl (\<lambda>ys i. list_pop i ys) xs ds)"
proof (induction ds arbitrary: xs)
  case Nil
  then show ?case by simp
next
  case (Cons i ds)
  have i: "i < length xs" "xs ! i \<noteq> x" using Cons.prems by simp_all
  have 1: "x \<in> set (list_pop i xs)" using Cons.prems(3) i by (rule in_list_pop)
  have 2: "\<forall>j\<in>set ds. j < length (list_pop i xs) \<and> list_pop i xs ! j \<noteq> x"
    using Cons.prems i by (auto simp add: length_list_pop nth_list_pop)
  from Cons.IH [OF _ 2 1] Cons.prems(1) show ?case by simp
qed

lemma foldl_pop_subset: "set (foldl (\<lambda>ys i. list_pop i ys) xs ds) \<subseteq> set xs"
proof (induction ds arbitrary: xs)
  case Nil
  then show ?case by simp
next
  case (Cons i ds)
  from Cons.IH [of "list_pop i xs"] set_list_pop [of i xs] show ?case by auto
qed

lemma foldl_pop_filter_le:
  "length (filter Q (foldl (\<lambda>ys i. list_pop i ys) xs ds)) \<le> length (filter Q xs)"
proof (induction ds arbitrary: xs)
  case Nil
  then show ?case by simp
next
  case (Cons i ds)
  from Cons.IH [of "list_pop i xs"] filter_list_pop_le [of Q i xs] show ?case by simp
qed

lemma poll_slots_sorted: "sorted_wrt (>) (rev (poll_slots s wps))"
proof -
  have "sorted_wrt (<) (poll_slots s wps)"
    unfolding poll_slots_def by (rule sorted_wrt_filter) simp
  then show ?thesis by (simp add: sorted_wrt_rev)
qed

lemma poll_slots_bound:
  "i \<in> set (poll_slots s wps) \<Longrightarrow> i < length wps \<and> i < length (working_task_ids s)
     \<and> slot_finished s (wps ! i)"
  by (auto simp add: poll_slots_def)

lemma length_pop_slots_wps:
  "length (pop_slots (poll_slots s wps) wps) = length wps - length (poll_slots s wps)"
  unfolding pop_slots_def
  by (rule foldl_pop_length [OF poll_slots_sorted, where xs = wps, simplified])
     (simp add: poll_slots_bound)

lemma length_pop_slots_wtids:
  "length (pop_slots (poll_slots s wps) (working_task_ids s))
     = length (working_task_ids s) - length (poll_slots s wps)"
  unfolding pop_slots_def
  by (rule foldl_pop_length [OF poll_slots_sorted, where xs = "working_task_ids s", simplified])
     (simp add: poll_slots_bound)

text \<open>
  What every step between two refills keeps: the configuration, the pending tasks and
  the cursor; the working list only shrinks. This carries the termination of the main
  loop.
\<close>

definition shrinks :: "parallel \<Rightarrow> parallel \<Rightarrow> bool" where
  "shrinks s s' =
     (cfg s' = cfg s \<and> env s' = env s \<and> cursor s' = cursor s \<and> all_task_ids s' = all_task_ids s
      \<and> wlen s' \<le> wlen s \<and> (working_processes s' = None \<longleftrightarrow> working_processes s = None))"

lemma shrinks_refl [simp]: "shrinks s s"
  by (simp add: shrinks_def)

lemma shrinks_trans: "shrinks s s' \<Longrightarrow> shrinks s' s'' \<Longrightarrow> shrinks s s''"
  by (auto simp add: shrinks_def)

lemma shrinks_steps:
  "shrinks s s' \<Longrightarrow> shrinks s (tick s')"
  "shrinks s s' \<Longrightarrow> shrinks s (state_of (set_terminate s'))"
  "shrinks s s' \<Longrightarrow> shrinks s (s'\<lparr>ip := i\<rparr>)"
  "shrinks s s' \<Longrightarrow> shrinks s (s'\<lparr>requests := r\<rparr>)"
  by (simp_all add: shrinks_def wlen_def)

lemma wait_shrinks: "shrinks s s' \<Longrightarrow> shrinks s (state_of (wait b s'))"
  by (rule wait_preserves) (simp_all add: shrinks_steps)

lemma wait_and_handle_finish_shrinks:
  assumes "shrinks s0 s"
  shows "shrinks s0 (state_of (wait_and_handle_finish b s))"
proof (cases "wait b s")
  case (Ok fs s')
  from wait_Ok [OF Ok] obtain wps where wps: "working_processes s' = Some wps"
    and fs: "fs = poll_slots s' wps" by blast
  have s': "shrinks s0 s'" using wait_shrinks [OF assms, of b] Ok by simp
  show ?thesis
  proof (cases "fs \<noteq> [] \<and> (\<exists>flag. terminated s' = Inr flag \<and> truthy flag)")
    case True
    have "shrinks s0 (state_of (user_terminate s'))"
      using s' by (rule user_terminate_preserves) (simp add: shrinks_steps)
    with True show ?thesis by (auto simp add: wait_and_handle_finish_def Ok)
  next
    case False
    have "wlen (s'\<lparr>working_task_ids := pop_slots fs (working_task_ids s'),
                  working_processes := map_option (pop_slots fs) (working_processes s')\<rparr>) \<le> wlen s'"
      by (simp add: wlen_def wps fs length_pop_slots_wps)
    with s' False show ?thesis
      by (auto simp add: wait_and_handle_finish_def Ok shrinks_def wps split: sum.splits)
  qed
next
  case (Raised e s')
  with wait_shrinks [OF assms, of b] show ?thesis by (simp add: wait_and_handle_finish_def)
next
  case (Hang s')
  with wait_shrinks [OF assms, of b] show ?thesis by (simp add: wait_and_handle_finish_def)
qed

lemma wait_and_handle_finish_strict:
  assumes "wait_and_handle_finish True s = Ok x s'"
  shows "wlen s' < wlen s"
proof (cases "wait True s")
  case (Ok fs s1)
  from wait_Ok [OF Ok] obtain wps where wps: "working_processes s1 = Some wps"
    and fs: "fs = poll_slots s1 wps" and ne: "fs \<noteq> []" by blast
  have "shrinks s s1" using wait_shrinks [of s s True] Ok by simp
  then have le: "wlen s1 \<le> wlen s" by (simp add: shrinks_def)
  have s': "s' = s1\<lparr>working_task_ids := pop_slots fs (working_task_ids s1),
                  working_processes := map_option (pop_slots fs) (working_processes s1)\<rparr>"
    using assms ne by (auto simp add: wait_and_handle_finish_def Ok split: if_splits sum.splits)
  have "length fs \<le> length wps"
    unfolding fs poll_slots_def by (rule le_trans [OF length_filter_le]) simp
  moreover have "0 < length fs" using ne by simp
  ultimately have "length wps - length fs < length wps" by linarith
  then have "wlen s' < wlen s1"
    by (simp add: s' wlen_def wps length_pop_slots_wps [of s1 wps, folded fs])
  with le show ?thesis by simp
next
  case (Raised e s1)
  with assms show ?thesis by (simp add: wait_and_handle_finish_def)
next
  case (Hang s1)
  with assms show ?thesis by (simp add: wait_and_handle_finish_def)
qed

lemma run_deferrals_shrinks:
  "shrinks s0 s \<Longrightarrow> shrinks s0 (state_of (run_deferrals ds s))"
proof (induction ds arbitrary: s)
  case Nil
  then show ?case by simp
next
  case (Cons d ds)
  have t: "shrinks s0 (tick s)" using Cons.prems by (rule shrinks_steps)
  have 1: "shrinks s0 (state_of (sleep d False s))"
    using t wait_and_handle_finish_shrinks [OF t, of False] by (simp add: sleep_def refresh_def)
  show ?case
  proof (cases "sleep d False s")
    case (Ok x s1)
    with 1 Cons.IH [of s1] show ?thesis by simp
  next
    case (Raised e s1)
    with 1 show ?thesis by simp
  next
    case (Hang s1)
    with 1 show ?thesis by simp
  qed
qed

lemma process_start_shrinks: "shrinks s0 s \<Longrightarrow> shrinks s0 (process_start pid s)"
  by (simp add: process_start_def shrinks_def wlen_def Let_def)

lemma get_process_shrinks:
  assumes "shrinks s0 s"
  shows "shrinks s0 (state_of (get_process task_id start s))"
proof (cases "sigint_at (env s) = Some (ip s)")
  case True
  then show ?thesis using assms
    by (simp add: get_process_def interruption_point_def shrinks_steps)
next
  case False
  let ?s1 = "s\<lparr>ip := ip s + 1, requests := requests s + 1\<rparr>"
  let ?a = "resource_manager (env s) (requests s) task_id"
  have "shrinks s0 ?s1" using assms by (simp add: shrinks_def wlen_def)
  then have 1: "shrinks s0 (state_of (run_deferrals (deferrals ?a) ?s1))"
    by (rule run_deferrals_shrinks)
  show ?thesis
  proof (cases "run_deferrals (deferrals ?a) ?s1")
    case (Ok x s2)
    have "\<And>p. shrinks s0 (s2\<lparr>procs := procs s2 @ [p]\<rparr>)"
      using 1 Ok by (simp add: shrinks_def wlen_def)
    then show ?thesis using 1 Ok False
      by (auto simp add: get_process_def interruption_point_def Let_def process_start_shrinks
          split: sum.splits)
  next
    case (Raised e s2)
    with 1 False show ?thesis by (simp add: get_process_def interruption_point_def Let_def)
  next
    case (Hang s2)
    with 1 False show ?thesis by (simp add: get_process_def interruption_point_def Let_def)
  qed
qed

lemma add_loop_Ok:
  "add_loop n s = Ok x s' \<Longrightarrow>
   cursor s' = cursor s + n \<and> all_task_ids s' = all_task_ids s \<and> cfg s' = cfg s
     \<and> env s' = env s \<and> wlen s' \<le> wlen s + n"
proof (induction n arbitrary: s)
  case 0
  then show ?case by simp
next
  case (Suc n)
  from Suc.prems obtain tid wps0 where tid: "list_get (all_task_ids s) (int (cursor s)) = Inr tid"
    and wps0: "working_processes s = Some wps0"
    by (auto split: sum.splits option.splits)
  from Suc.prems tid wps0 obtain p s1 where gp: "get_process tid True s = Ok p s1"
    by (auto split: res.splits)
  let ?s2 = "s1\<lparr>working_processes := map_option (\<lambda>wps. wps @ [p]) (working_processes s1),
                 working_task_ids := working_task_ids s1 @ [Some tid],
                 cursor := cursor s1 + 1\<rparr>"
  have rec: "add_loop n ?s2 = Ok x s'" using Suc.prems tid wps0 gp by simp
  have sh: "shrinks s s1" using get_process_shrinks [of s s tid True] gp by simp
  then obtain wps1 where wps1: "working_processes s1 = Some wps1"
    using wps0 by (auto simp add: shrinks_def)
  have "wlen ?s2 = wlen s1 + 1" by (simp add: wlen_def wps1)
  with Suc.IH [OF rec] sh show ?case by (simp add: shrinks_def)
qed

definition main_measure :: "parallel \<Rightarrow> nat" where
  "main_measure s = 2 * (length (all_task_ids s) - cursor s) + wlen s"

lemma add_new_processes_measure:
  assumes "add_new_processes s = Ok b s'"
  shows "main_measure s' \<le> main_measure s"
proof -
  from assms obtain wps where wps: "working_processes s = Some wps"
    by (auto simp add: add_new_processes_def split: option.splits)
  show ?thesis
  proof (cases "length (all_task_ids s) - cursor s > 0")
    case True
    let ?n = "min (num_jobs (cfg s) - length wps) (length (all_task_ids s) - cursor s)"
    from assms True obtain x where al: "add_loop ?n s = Ok x s'"
      by (auto simp add: add_new_processes_def wps Let_def split: res.splits)
    define n where "n = ?n"
    define L where "L = length (all_task_ids s)"
    from add_loop_Ok [OF al] have 1: "cursor s' = cursor s + n" "length (all_task_ids s') = L"
      "wlen s' \<le> wlen s + n" by (simp_all add: n_def L_def)
    have 2: "n \<le> L - cursor s" by (simp add: n_def L_def)
    have "2 * (L - (cursor s + n)) + wlen s' \<le> 2 * (L - cursor s) + wlen s"
      using 1(3) 2 by linarith
    then show ?thesis
      by (simp add: main_measure_def 1 L_def [symmetric])
  next
    case False
    with assms have "s' = s" by (simp add: add_new_processes_def wps Let_def)
    then show ?thesis by simp
  qed
qed

text \<open>The loop of lines 158 to 162.\<close>

function main_loop :: "parallel \<Rightarrow> unit res" where
  "main_loop self =
     (case wait_and_handle_finish True self of
        Raised e self \<Rightarrow> Raised e self
      | Hang self \<Rightarrow> Hang self
      | Ok _ self \<Rightarrow>
          (case add_new_processes self of
             Raised e self \<Rightarrow> Raised e self
           | Hang self \<Rightarrow> Hang self
           | Ok continue self \<Rightarrow> if \<not> continue then Ok () self else main_loop self))"
  by pat_completeness auto
termination
proof (relation "measure main_measure")
  show "wf (measure main_measure)" by simp
next
  fix self :: parallel and x1 :: unit and x2 x1a x2a
  assume w: "wait_and_handle_finish True self = Ok x1 x2"
    and a: "add_new_processes x2 = Ok x1a x2a" and "\<not> \<not> x1a"
  have "shrinks self x2" using wait_and_handle_finish_shrinks [of self self True] w by simp
  moreover have "wlen x2 < wlen self" using w by (rule wait_and_handle_finish_strict)
  ultimately have "main_measure x2 < main_measure self"
    by (simp add: main_measure_def shrinks_def)
  with add_new_processes_measure [OF a]
  show "(x2a, self) \<in> measure main_measure" by simp
qed

declare main_loop.simps [simp del]

text \<open>
  Lines 101 to 127 of \<^verbatim>\<open>__call__\<close>: the RAM kind is registered always, the GPU kind when
  \<^verbatim>\<open>available_cuda_list\<close> is \<^verbatim>\<open>None\<close> or a non-empty list. The default of the entry is
  \<^verbatim>\<open>None\<close> when \<^verbatim>\<open>use_cuda\<close> is set and the empty list otherwise.
\<close>

definition register_resources :: "parallel \<Rightarrow> unit res" where
  "register_resources self =
     (let self = self\<lparr>registered := registered self @ [''RAM'']\<rparr>;
          default_cuda_list = (if use_cuda (cfg self) then None else Some []);
          available_cuda_list =
            (case available_cuda_list (cfg self) of
               None \<Rightarrow> default_cuda_list
             | Some configured \<Rightarrow> configured)
      in if available_cuda_list = None \<or> available_cuda_list \<noteq> Some []
         then (case gpu_manager_error (env self) of
                 Some e \<Rightarrow> Raised e self
               | None \<Rightarrow> Ok () (self\<lparr>registered := registered self @ [''GPU'']\<rparr>))
         else Ok () self)"

text \<open>
  The \<^verbatim>\<open>try\<close> block of \<^verbatim>\<open>__call__\<close> (lines 131 to 162). \<open>init_processes\<close> is the list
  comprehension of line 133, \<open>start_all\<close> line 154. At line 152 the result of
  \<^verbatim>\<open>zip(*init_processes)\<close> is unpacked into two names: the list has two rows when some
  process was created (a pair \<^verbatim>\<open>(process, rs)\<close>), four when none was (\<^verbatim>\<open>[None] * 4\<close>
  in every slot) and none when there is no slot, and the last two cases raise
  \<^verbatim>\<open>ValueError\<close>. \<^verbatim>\<open>_record_process\<close> and \<^verbatim>\<open>initialize_running_usages\<close> belong to the
  resource manager.
\<close>

fun init_processes :: "nat list \<Rightarrow> parallel \<Rightarrow> nat option list res" where
  "init_processes [] self = Ok [] self"
| "init_processes (i # rest) self =
     (case get_process i False self of
        Raised e self \<Rightarrow> Raised e self
      | Hang self \<Rightarrow> Hang self
      | Ok process self \<Rightarrow>
          (case init_processes rest self of
             Raised e self \<Rightarrow> Raised e self
           | Hang self \<Rightarrow> Hang self
           | Ok processes self \<Rightarrow> Ok (process # processes) self))"

fun start_all :: "nat option list \<Rightarrow> parallel \<Rightarrow> parallel" where
  "start_all [] self = self"
| "start_all (None # rest) self = start_all rest self"
| "start_all (Some pid # rest) self = start_all rest (process_start pid self)"

definition try_body :: "nat \<Rightarrow> parallel \<Rightarrow> unit res" where
  "try_body n self =
     (let init_task_ids = [0..<n] in
      case init_processes init_task_ids self of
        Raised e self \<Rightarrow> Raised e self
      | Hang self \<Rightarrow> Hang self
      | Ok init_procs self \<Rightarrow>
          (case terminated self of
             Inl e \<Rightarrow> Raised e self
           | Inr flag \<Rightarrow>
          if truthy flag then user_terminate self
          else
            (let init_failed_slots =
                   filter (\<lambda>i. init_procs ! i = None) [0..<length (zip init_task_ids init_procs)];
                 init_failed_task_ids = map (\<lambda>i. init_task_ids ! i) init_failed_slots;
                 self = (if init_failed_slots \<noteq> []
                         then self\<lparr>all_task_ids := init_failed_task_ids @ all_task_ids self\<rparr>
                         else self);
                 self = self\<lparr>working_task_ids :=
                          map (\<lambda>i. if i \<in> set init_failed_slots then None
                                    else Some (init_task_ids ! i)) [0..<length init_task_ids]\<rparr>
             in if init_procs = []
                then Raised (ValueError ''not enough values to unpack (expected 2, got 0)'') self
                else if list_all (\<lambda>p. p = None) init_procs
                then Raised (ValueError ''too many values to unpack (expected 2)'') self
                else
                  (let self = self\<lparr>working_processes := Some init_procs\<rparr>;
                       self = start_all init_procs self
                   in main_loop self))))"

text \<open>
  The two \<^verbatim>\<open>except\<close> clauses (lines 163 to 172), whose three statements can raise in
  turn, and the \<^verbatim>\<open>finally\<close> clause (lines 173 to 187).
\<close>

definition record_base :: "py_error \<Rightarrow> parallel \<Rightarrow> unit res" where
  "record_base err self =
     (case exceptions self of
        Inl e \<Rightarrow> Raised e self
      | Inr excs \<Rightarrow>
          (case setitem excs ''base'' (PError err) of
             Inl e \<Rightarrow> Raised e self
           | Inr excs \<Rightarrow>
               (case proxy_setitem ''__exceptions__'' excs self of
                  Inl e \<Rightarrow> Raised e self
                | Inr self \<Rightarrow> Ok () self)))"

definition except_clauses :: "unit res \<Rightarrow> unit res" where
  "except_clauses r =
     (case r of
        Ok _ self \<Rightarrow> Ok () self
      | Raised KeyboardInterrupt self \<Rightarrow> record_base (ParallelError ''Keyboard Interrupted'') self
      | Raised err self \<Rightarrow> record_base err self
      | Hang self \<Rightarrow> Hang self)"

definition finally_clause :: "parallel \<Rightarrow> unit res" where
  "finally_clause self =
     (case (case working_processes self of
              None \<Rightarrow> Ok () self
            | Some wps \<Rightarrow> join_all wps self) of
        Raised e self \<Rightarrow> Raised e self
      | Hang self \<Rightarrow> Hang self
      | Ok _ self \<Rightarrow> Ok () (self\<lparr>manager_running := False\<rparr>))"

text \<open>
  The branch for Windows (lines 84 to 89): \<^verbatim>\<open>p.map(f, *args_list)\<close> calls the function
  on each row of the argument columns with no keyword argument, and the results are
  zipped with the task names into a plain dict.
\<close>

fun pool_task_names :: "parallel \<Rightarrow> nat list \<Rightarrow> py_error + string list" where
  "pool_task_names self [] = Inr []"
| "pool_task_names self (i # rest) =
     (case get_task_name self i of
        Inl e \<Rightarrow> Inl e
      | Inr task_name \<Rightarrow>
          (case pool_task_names self rest of
             Inl e \<Rightarrow> Inl e
           | Inr names \<Rightarrow> Inr (task_name # names)))"

fun pool_results :: "py_function \<Rightarrow> pyval list list \<Rightarrow> py_error + pyval list" where
  "pool_results f [] = Inr []"
| "pool_results f (row # rows) =
     (case body f row [] of
        Raises e \<Rightarrow> Inl e
      | Returns r \<Rightarrow>
          (case pool_results f rows of Inl e \<Rightarrow> Inl e | Inr results \<Rightarrow> Inr (r # results)))"

definition pool_rows :: "pyval list list \<Rightarrow> pyval list list" where
  "pool_rows columns =
     map (\<lambda>i. map (\<lambda>col. col ! i) columns) [0..<Min (set (map length columns))]"

fun dict_of_zip :: "'k list \<Rightarrow> 'v list \<Rightarrow> ('k \<times> 'v) list \<Rightarrow> ('k \<times> 'v) list" where
  "dict_of_zip (k # ks) (v # vs) d = dict_of_zip ks vs (AList.update k v d)"
| "dict_of_zip _ _ d = d"

text \<open>
  \<^verbatim>\<open>Parallel.__call__\<close> (lines 79 to 188): \<open>pool_map\<close> is the branch for Windows,
  \<open>call_setup\<close> lines 89 to 129 (the fresh shared dict, the fresh resource manager and
  its registrations), \<open>run_batch\<close> the \<^verbatim>\<open>try\<close> statement, after whose \<^verbatim>\<open>finally\<close>
  clause an exception raised in a handler goes on. \<open>Parallel_init\<close> is a freshly
  constructed object with no process and the clock at zero.
\<close>

definition initial_rs :: "nat \<Rightarrow> nat \<Rightarrow> (string \<times> pyval) list" where
  "initial_rs jobs n =
     [(''__meta__'', PDict [(''n_jobs'', PInt (int jobs)), (''n_tasks'', PInt (int n)),
                            (''terminated'', PBool False)]),
      (''__exceptions__'', PDict [])]"

definition pool_map :: "parallel \<Rightarrow> py_function \<Rightarrow> pyval list list \<Rightarrow> nat \<Rightarrow> batch" where
  "pool_map self f columns n =
     (case pool_task_names self [0..<n] of
        Inl e \<Rightarrow> Uncaught e self
      | Inr names \<Rightarrow>
          (case pool_results f (pool_rows columns) of
             Inl e \<Rightarrow> Uncaught e self
           | Inr results \<Rightarrow> PoolBatch (dict_of_zip names results [])))"

definition call_setup :: "parallel \<Rightarrow> py_function \<Rightarrow> pyval list list \<Rightarrow> nat \<Rightarrow> nat \<Rightarrow> unit res" where
  "call_setup self f columns jobs n =
     (let self = self\<lparr>func := f, args_list := columns, cursor := 0,
                      all_task_ids := [jobs..<n], manager_running := True,
                      rs := initial_rs jobs n, registered := []\<rparr>
      in case register_resources self of
           Raised e self \<Rightarrow> Raised e self
         | Hang self \<Rightarrow> Hang self
         | Ok _ self \<Rightarrow> Ok () (self\<lparr>working_processes := None\<rparr>))"

definition run_batch :: "nat \<Rightarrow> parallel \<Rightarrow> batch" where
  "run_batch jobs self =
     (case except_clauses (try_body jobs self) of
        Hang self \<Rightarrow> Hung self
      | Ok _ self \<Rightarrow>
          (case finally_clause self of
             Raised e self \<Rightarrow> Uncaught e self
           | Hang self \<Rightarrow> Hung self
           | Ok _ self \<Rightarrow> Done self)
      | Raised err self \<Rightarrow>
          (case finally_clause self of
             Raised e self \<Rightarrow> Uncaught e self
           | Hang self \<Rightarrow> Hung self
           | Ok _ self \<Rightarrow> Uncaught err self))"

definition call :: "parallel \<Rightarrow> py_function \<Rightarrow> pyval list list \<Rightarrow> batch" where
  "call self f columns =
     (case columns of
        [] \<Rightarrow> Uncaught (IndexError ''tuple index out of range'') self
      | col0 # _ \<Rightarrow>
          (let n = length col0;
               jobs = min (num_jobs (cfg self)) n
           in if windows (cfg self) then pool_map self f columns n
              else (case call_setup self f columns jobs n of
                      Raised e self \<Rightarrow> Uncaught e self
                    | Hang self \<Rightarrow> Hung self
                    | Ok _ self \<Rightarrow> run_batch jobs self)))"

definition Parallel_init :: "config \<Rightarrow> environment \<Rightarrow> parallel" where
  "Parallel_init c e =
     \<lparr>cfg = c, env = e, func = \<lparr>body = (\<lambda>args kwargs. Returns PNone), parameters = []\<rparr>,
      args_list = [], cursor = 0, all_task_ids = [], working_task_ids = [],
      working_processes = None,
      rs = [],
      registered = [], manager_running = False, procs = [], now = 0, worker_log = [],
      calls = [], requests = 0, ip = 0, live_peak = 0\<rparr>"

section \<open>Example batches\<close>

definition always_admit :: "nat \<Rightarrow> nat \<Rightarrow> rm_answer" where
  "always_admit request task_id = \<lparr>deferrals = [], create_process = True, gpu = None\<rparr>"

definition default_config :: "nat \<Rightarrow> config" where
  "default_config jobs =
     \<lparr>windows = False, num_jobs = jobs, use_cuda = False, task_names = None, name = None,
      suffix_format = (\<lambda>given. ''_'' @ given), available_cuda_list = None\<rparr>"

definition calm_environment :: environment where
  "calm_environment =
     \<lparr>task_startup = (\<lambda>task_id. 0), task_duration = (\<lambda>task_id. task_id mod 2),
      resource_manager = always_admit, gpu_manager_error = None, sigint_at = None\<rparr>"

definition identity :: py_function where
  "identity =
     \<lparr>body = (\<lambda>args kwargs. case args of [x] \<Rightarrow> Returns x | _ \<Rightarrow> Raises (TypeError ''arguments'')),
      parameters = [(''x'', POSITIONAL_OR_KEYWORD)]\<rparr>"






section \<open>The claims' words\<close>






section \<open>Properties of the cube normalizer\<close>

subsection \<open>Rounding\<close>

lemma round_half_even_error: "\<bar>of_int (round_half_even x) - x\<bar> \<le> 1 / 2"
proof -
  have "of_int \<lfloor>x\<rfloor> \<le> x" "x < of_int \<lfloor>x\<rfloor> + 1" by linarith+
  then show ?thesis by (auto simp add: round_half_even_def Let_def)
qed

lemma round_half_even_of_int: "round_half_even (of_int k) = k"
  by (simp add: round_half_even_def)

lemma round_half_even_near:
  assumes "\<bar>x - of_int k\<bar> < 1 / 2"
  shows "round_half_even x = k"
proof -
  have e: "\<bar>of_int (round_half_even x) - x\<bar> \<le> 1 / 2" by (rule round_half_even_error)
  have "\<bar>(of_int (round_half_even x) :: rat) - of_int k\<bar> < 1" using assms e by linarith
  then have "\<bar>(of_int (round_half_even x - k) :: rat)\<bar> < 1" by simp
  then have "\<bar>round_half_even x - k\<bar> < 1"
    by (metis of_int_abs of_int_less_1_iff)
  then show ?thesis by linarith
qed

lemma two_powi_nat: "0 \<le> k \<Longrightarrow> (2 :: rat) powi k = 2 ^ nat k"
  by (simp add: power_int_def)

lemma exponent_of_le:
  assumes "0 < x"
  shows "2 powi (exponent_of x) \<le> x"
proof -
  obtain p q where pq: "quotient_of x = (p, q)" by (cases "quotient_of x")
  have q: "0 < q" using pq by (rule quotient_of_denom_pos)
  have x: "x = of_int p / of_int q" using pq by (rule quotient_of_div)
  have p: "0 < p" using assms q x by (simp add: zero_less_divide_iff)
  define e where "e = bitlen p - bitlen q"
  have ex: "exponent_of x = (if 2 powi e \<le> x then e else e - 1)"
    by (simp add: exponent_of_def pq e_def Let_def)
  show ?thesis
  proof (cases "2 powi e \<le> x")
    case True
    then show ?thesis by (simp add: ex)
  next
    case False
    have bp: "1 \<le> bitlen p" using p by (simp add: bitlen_alt_def)
    have bq: "1 \<le> bitlen q" using q by (simp add: bitlen_alt_def)
    from bitlen_bounds [OF p] have 1: "(2 :: rat) ^ nat (bitlen p - 1) \<le> of_int p"
      by (metis of_int_le_iff of_int_numeral of_int_power)
    from bitlen_bounds [OF q] have 2: "(of_int q :: rat) < 2 ^ nat (bitlen q)"
      by (metis of_int_less_iff of_int_numeral of_int_power)
    have 3: "(2 :: rat) powi (e - 1) = 2 ^ nat (bitlen p - 1) / 2 ^ nat (bitlen q)"
    proof -
      have "e - 1 = (bitlen p - 1) - bitlen q" by (simp add: e_def)
      then have "(2 :: rat) powi (e - 1) = 2 powi (bitlen p - 1) / 2 powi (bitlen q)"
        by (simp add: power_int_diff)
      then show ?thesis using bp bq by (simp add: two_powi_nat)
    qed
    have "(2 :: rat) ^ nat (bitlen p - 1) / 2 ^ nat (bitlen q) \<le> of_int p / of_int q"
      using 1 2 q p by (intro frac_le) simp_all
    then have "2 powi (e - 1) \<le> x" unfolding 3 x .
    moreover have "exponent_of x = e - 1" using False by (simp add: ex)
    ultimately show ?thesis by simp
  qed
qed

text \<open>A rounding in the normal range is off by at most one part in \<open>2\<^sup>5\<^sup>3\<close>.\<close>

lemma round_double_error:
  assumes "0 < x" and "2 powi (- 1022) \<le> x" and "x \<le> 2 ^ 1000"
  shows "\<exists>r. round_double x = Finite r \<and> \<bar>r - x\<bar> \<le> x / 2 ^ 53"
proof -
  define q where "q = max (exponent_of x - 52) (- 1074)"
  define u :: rat where "u = 2 powi q"
  define r where "r = of_int (round_half_even (x / u)) * u"
  have u: "0 < u" by (simp add: u_def)
  have "2 powi (q + 52) \<le> x"
  proof (cases "exponent_of x - 52 \<le> - 1074")
    case True
    then have "q + 52 = - 1022" by (simp add: q_def)
    then show ?thesis using assms(2) by (simp only:)
  next
    case False
    then have "q + 52 = exponent_of x" by (simp add: q_def)
    then show ?thesis using exponent_of_le [OF assms(1)] by (simp only:)
  qed
  then have ux: "u * 2 ^ 52 \<le> x" by (simp add: u_def power_int_add)
  have "\<bar>of_int (round_half_even (x / u)) - x / u\<bar> \<le> 1 / 2" by (rule round_half_even_error)
  then have "\<bar>of_int (round_half_even (x / u)) - x / u\<bar> * u \<le> 1 / 2 * u"
    using u by (intro mult_right_mono) simp_all
  moreover have "\<bar>of_int (round_half_even (x / u)) - x / u\<bar> * u = \<bar>r - x\<bar>"
  proof -
    have "\<bar>of_int (round_half_even (x / u)) - x / u\<bar> * u
        = \<bar>(of_int (round_half_even (x / u)) - x / u) * u\<bar>"
      using u by (simp add: abs_mult)
    also have "(of_int (round_half_even (x / u)) - x / u) * u = r - x"
      using u by (simp add: r_def left_diff_distrib)
    finally show ?thesis .
  qed
  ultimately have e1: "\<bar>r - x\<bar> \<le> u / 2" by simp
  have "u / 2 \<le> x / 2 ^ 53" using ux by simp
  with e1 have e2: "\<bar>r - x\<bar> \<le> x / 2 ^ 53" by simp
  have "x / 2 ^ 53 \<le> x" using assms(1) by (simp add: divide_le_eq)
  with e2 have "r \<le> 2 * x" by linarith
  also have "2 * x \<le> 2 * 2 ^ 1000" using assms(3) by simp
  also have "(2 :: rat) * 2 ^ 1000 < 2 ^ 1024" by simp
  finally have no: "\<not> 2 ^ 1024 \<le> r" by simp
  have "round_double x = Finite r"
    using assms(1) no by (simp add: round_double_def Let_def q_def [symmetric] u_def [symmetric] r_def [symmetric])
  with e2 show ?thesis by blast
qed

text \<open>An int below \<open>2\<^sup>5\<^sup>3\<close> is a double.\<close>

lemma round_double_of_int:
  assumes "0 \<le> m" and "m < 2 ^ 53"
  shows "round_double (of_int m) = Finite (of_int m)"
proof (cases "m = 0")
  case True
  then show ?thesis by (simp add: round_double_def)
next
  case False
  define x :: rat where "x = of_int m"
  have x: "0 < x" "x < 2 ^ 53" using assms False by (simp_all add: x_def)
  define q where "q = max (exponent_of x - 52) (- 1074)"
  have "exponent_of x < 53"
  proof (rule ccontr)
    assume "\<not> exponent_of x < 53"
    then have "(2 :: rat) powi 53 \<le> 2 powi (exponent_of x)"
      by (intro power_int_increasing) simp_all
    with exponent_of_le [OF x(1)] x(2) show False by simp
  qed
  then have q: "q \<le> 0" by (simp add: q_def)
  define k where "k = nat (- q)"
  have u: "(2 :: rat) powi q = 1 / 2 ^ k"
    using q by (simp add: power_int_def k_def field_simps)
  have "x / 2 powi q = of_int (m * 2 ^ k)" by (simp add: u x_def)
  then have "round_half_even (x / 2 powi q) = m * 2 ^ k" by (simp only: round_half_even_of_int)
  then have r: "of_int (round_half_even (x / 2 powi q)) * 2 powi q = x" by (simp add: u x_def)
  have "x < 2 ^ 1024"
  proof -
    have "(2 :: rat) ^ 53 < 2 ^ 1024" by simp
    with x(2) show ?thesis by linarith
  qed
  then have "round_double x = Finite x"
    using x(1) by (simp add: round_double_def Let_def q_def [symmetric] r)
  then show ?thesis by (simp add: x_def)
qed

subsection \<open>The round trip through a choices list\<close>

lemma list_index_mem:
  "v \<in> set cs \<Longrightarrow> \<exists>i. list_index cs v = Inr i \<and> i < length cs \<and> cs ! i = v"
proof (induction cs)
  case Nil
  then show ?case by simp
next
  case (Cons x xs)
  show ?case
  proof (cases "x = v")
    case True
    then show ?thesis by simp
  next
    case False
    with Cons.prems have "v \<in> set xs" by simp
    from Cons.IH [OF this] obtain i where
      "list_index xs v = Inr i" "i < length xs" "xs ! i = v" by blast
    with False show ?thesis by simp
  qed
qed

text \<open>
  The quotient \<open>i / m\<close> of two ints, rounded, and its product with \<open>m\<close>, rounded again, is
  within \<open>3 i / 2\<^sup>5\<^sup>3\<close> of \<open>i\<close>: \<^verbatim>\<open>round\<close> finds \<open>i\<close> again as long as that is below a half.
\<close>

lemma quotient_product_rounds_back:
  assumes "0 \<le> i" and "i \<le> m" and "1 \<le> m" and "m \<le> 2 ^ 50"
  shows "\<exists>y. int_truediv i m = Inr (Finite y)
           \<and> (\<exists>z. float_mul (Finite y) (Finite (of_int m)) = Finite z \<and> round_half_even z = i)"
proof (cases "i = 0")
  case True
  have "int_truediv i m = Inr (Finite 0)"
    using True assms(3) by (simp add: int_truediv_def round_double_def)
  moreover have "float_mul (Finite 0) (Finite (of_int m)) = Finite 0"
    by (simp add: float_mul_def round_double_def)
  moreover have "round_half_even 0 = 0" using round_half_even_of_int [of 0] by simp
  ultimately show ?thesis using True by simp
next
  case False
  define I :: rat where "I = of_int i"
  define M :: rat where "M = of_int m"
  define e :: rat where "e = I / 2 ^ 53"
  have I: "1 \<le> I" "I \<le> M" using assms False by (simp_all add: I_def M_def)
  have M: "1 \<le> M" "M \<le> 2 ^ 50"
  proof -
    show "1 \<le> M" using assms(3) by (simp add: M_def)
    have "(of_int m :: rat) \<le> of_int (2 ^ 50)" using assms(4) by (simp only: of_int_le_iff)
    then show "M \<le> 2 ^ 50" by (simp add: M_def)
  qed
  have e: "0 < e" "e \<le> 1 / 8"
  proof -
    show "0 < e" using I by (simp add: e_def)
    have "I \<le> 2 ^ 50" using I M by linarith
    then have "I / 2 ^ 53 \<le> 2 ^ 50 / (2 ^ 53 :: rat)" by (intro divide_right_mono) simp_all
    then show "e \<le> 1 / 8" by (simp add: e_def)
  qed
  have x_pos: "0 < I / M" using I M by simp
  have x_lo: "2 powi (- 1022) \<le> I / M"
  proof -
    have "(2 :: rat) powi (- 1022) \<le> 2 powi (- 50)" by (intro power_int_increasing) simp_all
    also have "(2 :: rat) powi (- 50) = 1 / 2 ^ 50" by (simp add: power_int_def field_simps)
    also have "1 / 2 ^ 50 \<le> 1 / M" using M by (intro divide_left_mono) simp_all
    also have "1 / M \<le> I / M" using I M by (intro divide_right_mono) simp_all
    finally show ?thesis .
  qed
  have x_hi: "I / M \<le> 2 ^ 1000"
  proof -
    have "I / M \<le> 1" using I M by simp
    also have "(1 :: rat) \<le> 2 ^ 1000" by simp
    finally show ?thesis .
  qed
  from round_double_error [OF x_pos x_lo x_hi] obtain y where
    y: "round_double (I / M) = Finite y" and ye: "\<bar>y - I / M\<bar> \<le> I / M / 2 ^ 53"
    by blast
  have div: "int_truediv i m = Inr (Finite y)"
    using assms(3) y by (simp add: int_truediv_def I_def M_def)
  have a: "\<bar>y * M - I\<bar> \<le> e"
  proof -
    have "\<bar>y - I / M\<bar> * M \<le> I / M / 2 ^ 53 * M"
      using ye M by (intro mult_right_mono) simp_all
    moreover have "\<bar>y - I / M\<bar> * M = \<bar>y * M - I\<bar>"
    proof -
      have "\<bar>y - I / M\<bar> * M = \<bar>(y - I / M) * M\<bar>" using M by (simp add: abs_mult)
      also have "(y - I / M) * M = y * M - I" using M by (simp add: left_diff_distrib)
      finally show ?thesis .
    qed
    moreover have "I / M / 2 ^ 53 * M = e" using M by (simp add: e_def)
    ultimately show ?thesis by simp
  qed
  have p_lo0: "1 / 2 \<le> y * M" using a e I by linarith
  then have p_pos: "0 < y * M" by linarith
  have p_lo: "2 powi (- 1022) \<le> y * M"
  proof -
    have "(2 :: rat) powi (- 1022) \<le> 2 powi (- 1)" by (intro power_int_increasing) simp_all
    also have "(2 :: rat) powi (- 1) = 1 / 2" by (simp add: power_int_def)
    finally show ?thesis using p_lo0 by linarith
  qed
  have p_le: "y * M \<le> I + e" using a by linarith
  have p_hi: "y * M \<le> 2 ^ 1000"
  proof -
    have "y * M \<le> 2 ^ 50 + 1" using p_le e I M by linarith
    also have "(2 :: rat) ^ 50 + 1 \<le> 2 ^ 1000" by simp
    finally show ?thesis .
  qed
  from round_double_error [OF p_pos p_lo p_hi] obtain z where
    z: "round_double (y * M) = Finite z" and ze: "\<bar>z - y * M\<bar> \<le> y * M / 2 ^ 53"
    by blast
  have b: "y * M / 2 ^ 53 \<le> 2 * e"
  proof -
    have "y * M / 2 ^ 53 \<le> (I + e) / 2 ^ 53" using p_le by (intro divide_right_mono) simp_all
    also have "(I + e) / 2 ^ 53 = e + e / 2 ^ 53" by (simp add: e_def add_divide_distrib)
    also have "e / 2 ^ 53 \<le> e" using e(1) by (simp add: divide_le_eq)
    finally show ?thesis by linarith
  qed
  have "\<bar>z - I\<bar> < 1 / 2" using a ze b e by linarith
  then have "round_half_even z = i" unfolding I_def by (rule round_half_even_near)
  moreover have "float_mul (Finite y) (Finite (of_int m)) = Finite z"
    using z by (simp add: float_mul_def M_def)
  ultimately show ?thesis using div by blast
qed

text \<open>
  C10. With a choices list of at least two pairwise-distinct elements, recovering the
  normalized position of a choice gives the choice back: \<open>cube_normalize\<close> succeeds on
  every element of the list, and \<open>cube_recover\<close> applied to its result returns that
  element. The two roundings of the floats involved move the product by less than a half
  for every list of up to \<open>2\<^sup>5\<^sup>0\<close> elements, more than the memory of a machine holds.
\<close>

theorem cube_recover_normalize:
  assumes "choices self = Some cs" and "2 \<le> length cs" and "length cs \<le> 2 ^ 50"
    and "distinct cs" and "v \<in> set cs"
  shows "\<exists>x. cube_normalize self v = Inr x \<and> cube_recover self x = Inr v"
proof -
  from list_index_mem [OF assms(5)] obtain i where
    idx: "list_index cs v = Inr i" and i: "i < length cs" and at: "cs ! i = v" by blast
  define m where "m = int (length cs) - 1"
  have m: "int i \<le> m" "1 \<le> m" using i assms(2) by (simp_all add: m_def)
  have "int (length cs) \<le> int (2 ^ 50)" using assms(3) by (simp only: of_nat_le_iff)
  then have m50: "m \<le> 2 ^ 50" by (simp add: m_def)
  have m53: "m < 2 ^ 53"
  proof -
    have "(2 :: int) ^ 50 < 2 ^ 53" by simp
    with m50 show ?thesis by linarith
  qed
  from quotient_product_rounds_back [OF _ m(1) m(2) m50] obtain y z where
    y: "int_truediv (int i) m = Inr (Finite y)"
    and z: "float_mul (Finite y) (Finite (of_int m)) = Finite z"
    and r: "round_half_even z = int i"
    by auto
  have n: "cube_normalize self v = Inr (Finite y)"
    using y by (simp add: cube_normalize_def assms(1) idx m_def)
  have f: "float_of_int m = Inr (Finite (of_int m))"
    using m(2) m53 by (simp add: float_of_int_def round_double_of_int)
  have clamp: "max 0 (min m (int i)) = int i" using m by simp
  have get: "list_get cs (int i) = Inr (cs ! i)" using i by (simp add: list_get_def)
  have "cube_recover self (Finite y) =
      (case float_of_int m of
         Inl e \<Rightarrow> Inl e
       | Inr n \<Rightarrow>
           (case py_round (float_mul (Finite y) n) of
              Inl e \<Rightarrow> Inl e
            | Inr idx \<Rightarrow> list_get cs (max 0 (min m idx))))"
    by (simp only: cube_recover_def assms(1) option.case m_def Let_def)
  also have "\<dots> = Inr (cs ! i)"
    by (simp only: f sum.case z py_round_def pyfloat.case r clamp get)
  finally have "cube_recover self (Finite y) = Inr (cs ! i)" .
  with n at show ?thesis by simp
qed

theorem cube_recover_normalize_witness:
  "cube_normalize
     \<lparr>choices = Some (map (\<lambda>k. Number (Finite (of_nat k))) [0..<23]), is_exponential = False,
      base = Finite 2, lower = Finite 0, diff = Finite 1,
      math_log = (\<lambda>x b. Inr x), math_pow = (\<lambda>b x. Inr x)\<rparr>
       (Number (Finite 15) :: unit generic_number)
     = Inr (Finite (6141272219141585 / 9007199254740992))
   \<and> cube_recover
     \<lparr>choices = Some (map (\<lambda>k. Number (Finite (of_nat k))) [0..<23]), is_exponential = False,
      base = Finite 2, lower = Finite 0, diff = Finite 1,
      math_log = (\<lambda>x b. Inr x), math_pow = (\<lambda>b x. Inr x)\<rparr>
       (Finite (6141272219141585 / 9007199254740992))
     = Inr (Number (Finite 15) :: unit generic_number)"
proof -
  let ?cs = "map (\<lambda>k. Number (Finite (of_nat k)) :: unit generic_number) [0..<23]"
  let ?n = "\<lparr>choices = Some ?cs, is_exponential = False,
      base = Finite 2, lower = Finite 0, diff = Finite 1,
      math_log = (\<lambda>x b. Inr x), math_pow = (\<lambda>b x. Inr x)\<rparr>"
  have n: "cube_normalize ?n (Number (Finite 15)) = Inr (Finite (6141272219141585 / 9007199254740992))"
    by code_simp
  have 1: "choices ?n = Some ?cs" by simp
  have 2: "2 \<le> length ?cs" by simp
  have 3: "length ?cs \<le> 2 ^ 50" by simp
  have 4: "distinct ?cs" by (simp add: distinct_map inj_on_def)
  have 5: "Number (Finite 15) \<in> set ?cs" by code_simp
  from cube_recover_normalize [OF 1 2 3 4 5]
  obtain x where "cube_normalize ?n (Number (Finite 15)) = Inr x"
    and "cube_recover ?n x = Inr (Number (Finite 15))" by auto
  with n have "x = Finite (6141272219141585 / 9007199254740992)"
    and "cube_recover ?n x = Inr (Number (Finite 15))" by simp_all
  then have "cube_recover ?n (Finite (6141272219141585 / 9007199254740992)) = Inr (Number (Finite 15))"
    by (simp only:)
  with n show ?thesis by (simp only: simp_thms)
qed

section \<open>Properties of the selection in \<open>HPOBase.search\<close>\<close>

lemma sample_loop_mset:
  "i \<le> n \<Longrightarrow> length pool = n \<Longrightarrow> k = n \<Longrightarrow>
   mset (sample_loop rb n k i pool result) = mset result + mset (take (n - i) pool)"
proof (induction rb n k i pool result rule: sample_loop.induct)
  case (1 rb n k i pool result)
  show ?case
  proof (cases "i < k")
    case False
    with "1.prems" show ?thesis by (simp add: sample_loop.simps)
  next
    case True
    define m where "m = n - i - 1"
    define j where "j = rb i mod (n - i)"
    have nm: "n - i = Suc m" "n - Suc i = m" using True "1.prems" by (simp_all add: m_def)
    have "j < Suc m" unfolding j_def nm by simp
    then have jm: "j \<le> m" by simp
    have mlen: "m < length pool" using True "1.prems" by (simp add: m_def)
    have step: "sample_loop rb n k i pool result
        = sample_loop rb n k (Suc i) (pool[j := pool ! m]) (result @ [pool ! j])"
      using True by (subst sample_loop.simps) (simp add: Let_def j_def m_def)
    have IH: "mset (sample_loop rb n k (Suc i) (pool[j := pool ! m]) (result @ [pool ! j]))
        = mset (result @ [pool ! j]) + mset (take (n - Suc i) (pool[j := pool ! m]))"
      using "1.IH" [OF True j_def] True "1.prems" by (simp add: m_def)
    have tk: "take (Suc m) pool = take m pool @ [pool ! m]"
      using mlen by (simp add: take_Suc_conv_app_nth)
    have key: "add_mset (pool ! j) (mset (take m (pool[j := pool ! m]))) = mset (take (Suc m) pool)"
    proof (cases "j = m")
      case True
      then show ?thesis by (simp add: tk)
    next
      case False
      with jm have jl: "j < m" by simp
      then have jl2: "j < length (take m pool)" using mlen by simp
      have a: "take m (pool[j := pool ! m]) = (take m pool)[j := pool ! m]"
        by (simp add: take_update_swap)
      have b: "(take m pool) ! j = pool ! j" using jl by simp
      have c: "pool ! j \<in># mset (take m pool)"
        using jl2 b by (metis nth_mem_mset)
      show ?thesis
        using mset_update [OF jl2, of "pool ! m"] a b c by (simp add: tk)
    qed
    show ?thesis
      unfolding step IH nm using key by simp
  qed
qed

lemma select_loop_prefix:
  "int (length acc) = i \<Longrightarrow> i \<le> k \<Longrightarrow>
   select_loop {0..<k} k i ps acc = acc @ take (nat (k - i)) ps"
proof (induction ps arbitrary: i acc)
  case Nil
  then show ?case by simp
next
  case (Cons p ps)
  show ?case
  proof (cases "i < k")
    case True
    with Cons.prems have m: "i \<in> {0..<k}" by auto
    have suc: "nat (k - i) = Suc (nat (k - (i + 1)))" using True by simp
    show ?thesis
    proof (cases "i + 1 = k")
      case True
      then have "nat (k - i) = 1" by simp
      with m Cons.prems True show ?thesis by simp
    next
      case False
      with True have lt: "i + 1 \<le> k" by simp
      have "int (length (acc @ [p])) = i + 1" using Cons.prems by simp
      from Cons.IH [OF this lt] m False Cons.prems
      show ?thesis by (simp add: suc)
    qed
  next
    case False
    with Cons.prems have "i = k" by simp
    with Cons.prems show ?thesis by simp
  qed
qed

text \<open>
  C9. For a finite parameter space and \<open>0 \<le> num_search \<le> n_params\<close>, whatever the
  random generator draws, the index set is \<open>{0, \<dots>, num_search - 1}\<close>, and the selected
  parameters are the first \<open>num_search\<close> ones the generator enumerates.
\<close>

theorem search_samples_output_index_space:
  assumes "0 \<le> k" and "k \<le> int (length params)"
  shows "draw_all_indices randbelow k = Inr {0..<k}
       \<and> search_all_params randbelow params (SearchInt k) = Inr (take (nat k) params)"
proof -
  have len: "length [0..k - 1] = nat k" using assms(1) by simp
  have "mset (sample_loop randbelow (nat k) (nat k) 0 [0..k - 1] [])
      = mset [] + mset (take (nat k - 0) [0..k - 1])"
    by (rule sample_loop_mset) (simp_all add: len)
  then have "mset (sample_loop randbelow (nat k) (nat k) 0 [0..k - 1] []) = mset [0..k - 1]"
    using len by simp
  then have "set (sample_loop randbelow (nat k) (nat k) 0 [0..k - 1] []) = set [0..k - 1]"
    by (rule mset_eq_setD)
  also have "set [0..k - 1] = {0..<k}" by auto
  finally have s: "set (sample_loop randbelow (nat k) (nat k) 0 [0..k - 1] []) = {0..<k}" .
  have rs: "random_sample randbelow [0..k - 1] k
      = Inr (sample_loop randbelow (nat k) (nat k) 0 [0..k - 1] [])"
    unfolding random_sample_def len using assms(1) by simp
  have d: "draw_all_indices randbelow k = Inr {0..<k}"
    unfolding draw_all_indices_def rs using s by simp
  have r: "resolve_num_search (Some (length params)) (SearchInt k) = Inr k"
    using assms(2) by (simp add: resolve_num_search_def)
  have "select_loop {0..<k} k 0 params [] = take (nat k) params"
    using select_loop_prefix [of "[]" 0 k params] assms(1) by simp
  with d r show ?thesis by (simp add: search_all_params_def)
qed

theorem search_samples_output_index_space_witness:
  "draw_all_indices (\<lambda>i. 7 * i + 3) 3 = Inr {0..<3}
   \<and> search_all_params (\<lambda>i. 7 * i + 3) [''a'', ''b'', ''c'', ''d'', ''e''] (SearchInt 3)
       = Inr [''a'', ''b'', ''c'']"
  using search_samples_output_index_space
    [of 3 "[''a'', ''b'', ''c'', ''d'', ''e'']" "\<lambda>i. 7 * i + 3"]
  by simp

section \<open>Properties of the worker adapter\<close>








lemma terminated_after_update:
  "terminated (s\<lparr>rs := AList.update ''__meta__'' (PDict (AList.update ''terminated'' v m)) al\<rparr>)
     = Inr v"
  by (simp add: terminated_def meta_def proxy_getitem_def getitem_def update_conv')




section \<open>The capabilities the adapter passes\<close>






text \<open>The log only grows.\<close>

lemma worker_log_terminate_task:
  "x \<in> set (worker_log s) \<Longrightarrow> x \<in> set (worker_log (state_of (terminate_task n s)))"
  by (cases "set_terminate s"; use set_terminate_frame [of s] in \<open>simp add: terminate_task_def log_method_def\<close>)






section \<open>Registering the resource kinds\<close>

text \<open>
  C5, as the code has it. With \<^verbatim>\<open>use_cuda\<close> set and the empty list configured as
  \<^verbatim>\<open>available_cuda_list\<close>, the setup raises nothing: it ends with the RAM kind registered
  and no GPU kind, and (off Windows, where there is no setup) the call goes on to run the
  batch from that state.
\<close>

theorem empty_cuda_list_batch_proceeds:
  assumes "use_cuda (cfg self)" and "available_cuda_list (cfg self) = Some (Some [])"
  shows "\<exists>s. call_setup self f (col0 # cols) (min (num_jobs (cfg self)) (length col0)) (length col0)
           = Ok () s
         \<and> registered s = [''RAM'']
         \<and> (\<not> windows (cfg self) \<longrightarrow>
              call self f (col0 # cols) = run_batch (min (num_jobs (cfg self)) (length col0)) s)"
proof -
  let ?jobs = "min (num_jobs (cfg self)) (length col0)"
  let ?s0 = "self\<lparr>func := f, args_list := col0 # cols, cursor := 0,
                   all_task_ids := [?jobs..<length col0], manager_running := True,
                   rs := initial_rs ?jobs (length col0), registered := []\<rparr>"
  have "register_resources ?s0 = Ok () (?s0\<lparr>registered := [''RAM'']\<rparr>)"
    using assms by (simp add: register_resources_def Let_def)
  then have cs: "call_setup self f (col0 # cols) ?jobs (length col0)
      = Ok () (?s0\<lparr>registered := [''RAM''], working_processes := None\<rparr>)"
    by (simp add: call_setup_def Let_def)
  then have "\<not> windows (cfg self) \<longrightarrow> call self f (col0 # cols)
      = run_batch ?jobs (?s0\<lparr>registered := [''RAM''], working_processes := None\<rparr>)"
    by (simp add: call_def Let_def)
  with cs show ?thesis by (intro exI [of _ "?s0\<lparr>registered := [''RAM''], working_processes := None\<rparr>"]) simp
qed

theorem empty_cuda_list_batch_proceeds_witness:
  "\<exists>s. call_setup
          (Parallel_init ((default_config 2)\<lparr>use_cuda := True, available_cuda_list := Some (Some [])\<rparr>)
             calm_environment) identity [[PInt 5, PInt 6]] 2 2 = Ok () s
       \<and> registered s = [''RAM'']
       \<and> call (Parallel_init ((default_config 2)\<lparr>use_cuda := True, available_cuda_list := Some (Some [])\<rparr>)
             calm_environment) identity [[PInt 5, PInt 6]] = run_batch 2 s"
proof -
  let ?s = "Parallel_init ((default_config 2)\<lparr>use_cuda := True, available_cuda_list := Some (Some [])\<rparr>)
      calm_environment"
  have 1: "use_cuda (cfg ?s)" by (simp add: Parallel_init_def default_config_def)
  have 2: "available_cuda_list (cfg ?s) = Some (Some [])"
    by (simp add: Parallel_init_def default_config_def)
  have 3: "\<not> windows (cfg ?s)" by (simp add: Parallel_init_def default_config_def)
  have 4: "min (num_jobs (cfg ?s)) (length [PInt 5, PInt 6]) = 2"
    by (simp add: Parallel_init_def default_config_def)
  have 5: "length [PInt 5, PInt 6] = 2" "min (num_jobs (cfg ?s)) 2 = 2"
    by (simp_all add: Parallel_init_def default_config_def)
  from empty_cuda_list_batch_proceeds [OF 1 2, of identity "[PInt 5, PInt 6]" "[]"] 3
  obtain s where
    "call_setup ?s identity [[PInt 5, PInt 6]] (min (num_jobs (cfg ?s)) (length [PInt 5, PInt 6]))
       (length [PInt 5, PInt 6]) = Ok () s"
    "registered s = [''RAM'']"
    "call ?s identity [[PInt 5, PInt 6]]
       = run_batch (min (num_jobs (cfg ?s)) (length [PInt 5, PInt 6])) s"
    by blast
  then have "call_setup ?s identity [[PInt 5, PInt 6]] 2 2 = Ok () s \<and> registered s = [''RAM'']
      \<and> call ?s identity [[PInt 5, PInt 6]] = run_batch 2 s"
    by (simp only: 4 5 simp_thms)
  then show ?thesis by (rule exI)
qed

text \<open>
  The claim as it is written fails: with that configuration a batch of two tasks runs to
  its end, with both results in place, no exception recorded and only RAM registered.
\<close>

theorem empty_cuda_list_batch_completes:
  "(case call (Parallel_init ((default_config 2)\<lparr>use_cuda := True, available_cuda_list := Some (Some [])\<rparr>)
        calm_environment) identity [[PInt 5, PInt 6]] of
      Done s \<Rightarrow>
        registered s = [''RAM'']
        \<and> rs s = [(''__meta__'', PDict [(''n_jobs'', PInt 2), (''n_tasks'', PInt 2),
                                         (''terminated'', PBool False)]),
                  (''__exceptions__'', PDict []),
                  (''task_0'', PInt 5), (''task_1'', PInt 6)]
    | _ \<Rightarrow> False)"
  by code_simp

end
